theory Spec2Isabelle
  imports Complex_Main "HOL-Library.Word" "HOL-Library.Multiset"
begin

text \<open>
  The funding ledger of the account router: opening an account, funding it, and listing
  its transactions. The sources hold two revisions of the router,
  \<open>server/routers/account.ts\<close> and a later one (\<open>unnamed/part_002\<close>, the revision that
  imports \<open>crypto\<close> and \<open>validateCardNumber\<close>). Both are modelled; the definitions of
  the later revision carry the suffix \<open>_p2\<close>, and what the two share is defined once.
\<close>

section \<open>JavaScript values\<close>

text \<open>
  A JavaScript \<open>number\<close> is an IEEE 754 double: a finite value, one of the two
  infinities, or \<open>NaN\<close>. A finite double is named by the real that it denotes; the two
  zeros are not told apart (they compare equal, and no sum below depends on the sign of
  a zero). The validation code of \<open>fundAccount\<close> treats the special values differently
  (\<open>isNaN\<close>, \<open>z.number()\<close>).
\<close>

datatype number = Num real | PosInfinity | NegInfinity | NaN

text \<open>
  Rounding a real to the nearest double, ties to the even significand (the rounding of
  every arithmetic operation of JavaScript, and of SQLite on \<open>REAL\<close> values).
  \<open>halvings x\<close> is how often a value of at least 1 can be halved before it falls below
  2, and \<open>doublings n x\<close> how often a value below 1 has to be doubled to reach 1, at most
  \<open>n\<close> times. \<open>exponent x\<close> is the binary exponent of the double format at \<open>x\<close>: the
  integer part of the logarithm to base 2 of \<open>\<bar>x\<bar>\<close>, and -1022 for every value below
  \<open>2 powi - 1022\<close>, where the doubles are subnormal. A double has 53 significant bits,
  so around \<open>x\<close> the doubles are the multiples of \<open>ulp x\<close>. A value that rounds to
  \<open>2 ^ 1024\<close> or beyond becomes an infinity.
\<close>

definition round_half_even :: "real \<Rightarrow> int" where
  "round_half_even y =
     (let n = \<lfloor>y\<rfloor> in
      if y - of_int n < 1 / 2 then n
      else if 1 / 2 < y - of_int n then n + 1
      else if even n then n else n + 1)"

function halvings :: "real \<Rightarrow> nat" where
  "halvings x = (if 2 \<le> x then Suc (halvings (x / 2)) else 0)"
  by auto
termination
proof (relation "measure (\<lambda>x. nat \<lfloor>x\<rfloor>)")
  show "wf (measure (\<lambda>x::real. nat \<lfloor>x\<rfloor>))" by simp
next
  fix x :: real
  assume x: "2 \<le> x"
  have "\<lfloor>x / 2\<rfloor> \<le> \<lfloor>x - 1\<rfloor>"
    using x by (intro floor_mono) simp
  also have "\<dots> = \<lfloor>x\<rfloor> - 1" by simp
  finally have "\<lfloor>x / 2\<rfloor> < \<lfloor>x\<rfloor>" by simp
  moreover have "0 < \<lfloor>x\<rfloor>" using x by simp
  ultimately show "(x / 2, x) \<in> measure (\<lambda>x. nat \<lfloor>x\<rfloor>)"
    by simp
qed

declare halvings.simps [simp del]

fun doublings :: "nat \<Rightarrow> real \<Rightarrow> nat" where
  "doublings 0 x = 0"
| "doublings (Suc n) x = (if x < 1 then Suc (doublings n (2 * x)) else 0)"

definition exponent :: "real \<Rightarrow> int" where
  "exponent x = (if 1 \<le> \<bar>x\<bar> then int (halvings \<bar>x\<bar>) else - int (doublings 1022 \<bar>x\<bar>))"

definition ulp :: "real \<Rightarrow> real" where
  "ulp x = 2 powi (exponent x - 52)"

definition to_double :: "real \<Rightarrow> number" where
  "to_double x =
     (let r = of_int (round_half_even (x / ulp x)) * ulp x in
      if 2 ^ 1024 \<le> \<bar>r\<bar> then (if 0 < x then PosInfinity else NegInfinity) else Num r)"

text \<open>
  The reals that are doubles: those that rounding leaves as they are. The amounts that
  a call can carry and the balances that the store can hold are among them; what is
  proved below for every real holds for them in particular.
\<close>

definition is_double :: "real \<Rightarrow> bool" where
  "is_double x = (to_double x = Num x)"

text \<open>
  The operator \<open>+\<close> on numbers, in JavaScript and in the \<open>balance + ?\<close> of the SQL
  update: the exact sum of two finite values, rounded.
\<close>

instantiation number :: plus
begin

fun plus_number :: "number \<Rightarrow> number \<Rightarrow> number" where
  "plus_number NaN y = NaN"
| "plus_number x NaN = NaN"
| "plus_number (Num a) (Num b) = to_double (a + b)"
| "plus_number (Num a) PosInfinity = PosInfinity"
| "plus_number (Num a) NegInfinity = NegInfinity"
| "plus_number PosInfinity (Num b) = PosInfinity"
| "plus_number NegInfinity (Num b) = NegInfinity"
| "plus_number PosInfinity PosInfinity = PosInfinity"
| "plus_number NegInfinity NegInfinity = NegInfinity"
| "plus_number PosInfinity NegInfinity = NaN"
| "plus_number NegInfinity PosInfinity = NaN"

instance ..

end

text \<open>The comparisons of JavaScript: every comparison with \<open>NaN\<close> is false.\<close>

fun js_less :: "number \<Rightarrow> number \<Rightarrow> bool" where
  "js_less NaN y = False"
| "js_less x NaN = False"
| "js_less (Num a) (Num b) = (a < b)"
| "js_less x PosInfinity = (x \<noteq> PosInfinity)"
| "js_less PosInfinity y = False"
| "js_less NegInfinity y = (y \<noteq> NegInfinity)"
| "js_less x NegInfinity = False"

fun js_less_eq :: "number \<Rightarrow> number \<Rightarrow> bool" where
  "js_less_eq NaN y = False"
| "js_less_eq x NaN = False"
| "js_less_eq x y = (x = y \<or> js_less x y)"

definition isNaN :: "number \<Rightarrow> bool" where
  "isNaN x = (x = NaN)"

text \<open>
  \<open>Number.prototype.toString\<close> on an integral value, and \<open>String.prototype.padStart\<close>
  with a pad string of one character.
\<close>

definition digit_char :: "nat \<Rightarrow> char" where
  "digit_char d = char_of (48 + d)"

fun digits :: "nat \<Rightarrow> string" where
  "digits n = (if n < 10 then [digit_char n] else digits (n div 10) @ [digit_char (n mod 10)])"

declare digits.simps [simp del]

definition toString :: "int \<Rightarrow> string" where
  "toString i = (if i < 0 then CHR ''-'' # digits (nat (- i)) else digits (nat i))"

definition padStart :: "nat \<Rightarrow> char \<Rightarrow> string \<Rightarrow> string" where
  "padStart targetLength c s = replicate (targetLength - length s) c @ s"

text \<open>Reading a string of decimal digits back as a number (used to state properties only).\<close>

definition isDigit :: "char \<Rightarrow> bool" where
  "isDigit c = (48 \<le> (of_char c :: nat) \<and> (of_char c :: nat) \<le> 57)"

definition digit_value :: "char \<Rightarrow> nat" where
  "digit_value c = of_char c - 48"

definition decimal_value :: "string \<Rightarrow> nat" where
  "decimal_value s = foldl (\<lambda>v c. 10 * v + digit_value c) 0 s"


section \<open>Account numbers\<close>

text \<open>
  \<open>generateAccountNumber\<close> of \<open>server/routers/account.ts\<close>:
  \<^verbatim>\<open>Math.floor(Math.random() * 1000000000).toString().padStart(10, "0")\<close>.
  The value returned by \<open>Math.random()\<close> is the argument \<open>r\<close>; the product is taken
  over the reals.
\<close>

definition generateAccountNumber :: "real \<Rightarrow> string" where
  "generateAccountNumber r = padStart 10 (CHR ''0'') (toString \<lfloor>r * 1000000000\<rfloor>)"

text \<open>
  The later revision of the router (with \<open>crypto.randomBytes\<close>):
  \<^verbatim>\<open>randomBytes.readUInt32BE(0) % 1000000000\<close>, then the same conversion. The 32-bit
  value read from the four random bytes is the argument \<open>randomNumber\<close>.
\<close>

definition generateAccountNumber_p2 :: "32 word \<Rightarrow> string" where
  "generateAccountNumber_p2 randomNumber =
     (let accountNum = unat randomNumber mod 1000000000
      in padStart 10 (CHR ''0'') (toString (int accountNum)))"


section \<open>The store\<close>

text \<open>
  Modelled from the spec: the schema (\<open>lib/db/schema\<close>), which is not among the sources.
  The rows of the two tables have the columns that the router's queries and the raw SQL
  name. Timestamps are abstract instants, ordered as the stored timestamps are.
\<close>

datatype account_type = Checking | Savings

record account_row =
  a_id :: int
  a_userId :: int
  a_accountNumber :: string
  a_accountType :: account_type
  a_balance :: number
  a_status :: string
  a_createdAt :: nat

record transaction_row =
  t_id :: int
  t_accountId :: int
  t_type :: string
  t_amount :: number
  t_description :: string
  t_status :: string
  t_createdAt :: nat
  t_processedAt :: nat

record db =
  accounts :: "account_row list"
  transactions :: "transaction_row list"

text \<open>
  What a call meets outside the store's contents: the clock, and the failures of the
  storage engine that the spec speaks of. \<open>insert_fails\<close> and \<open>update_fails\<close> make the
  \<open>INSERT\<close> and the \<open>UPDATE\<close> of the call throw; \<open>account_read_empty\<close> and
  \<open>transaction_read_empty\<close> make the \<open>SELECT\<close> that reads a row back after a write
  find no row.
\<close>

record env =
  now :: nat
  insert_fails :: bool
  update_fails :: bool
  account_read_empty :: bool
  transaction_read_empty :: bool

text \<open>A call on which every statement does its work.\<close>

definition quiet :: env where
  "quiet = \<lparr>now = 0, insert_fails = False, update_fails = False,
     account_read_empty = False, transaction_read_empty = False\<rparr>"

datatype trpc_code = CONFLICT | NOT_FOUND | BAD_REQUEST | INTERNAL_SERVER_ERROR

datatype error = TRPCError trpc_code string | SqliteError

text \<open>
  Modelled from the spec: the storage handle (\<open>db\<close> and \<open>getRawDatabase\<close> of \<open>lib/db\<close>,
  over SQLite), which is not among the sources. A table is the list of its rows in
  insertion order. \<open>select_get\<close> is a query ended by \<open>.get()\<close>: the first matching row,
  if any.
\<close>

definition select_get :: "('r \<Rightarrow> bool) \<Rightarrow> 'r list \<Rightarrow> 'r option" where
  "select_get P rows = find P rows"

text \<open>
  Modelled from the spec: a query of \<open>lib/db\<close> that returns every matching row, in table
  order when it has no \<open>ORDER BY\<close>.
\<close>

definition select_all :: "('r \<Rightarrow> bool) \<Rightarrow> 'r list \<Rightarrow> 'r list" where
  "select_all P rows = filter P rows"

text \<open>
  Modelled from the spec: the surrogate id that the store assigns to an inserted row, one
  more than the largest id in the table.
\<close>

definition next_rowid :: "int list \<Rightarrow> int" where
  "next_rowid ids = (case ids of [] \<Rightarrow> 1 | i # rest \<Rightarrow> fold max rest i + 1)"

text \<open>
  Modelled from the spec: \<open>db.insert(accounts).values(...)\<close> of \<open>lib/db\<close>. The store
  assigns the id and the creation time.
\<close>

definition insert_account ::
  "env \<Rightarrow> int \<Rightarrow> string \<Rightarrow> account_type \<Rightarrow> number \<Rightarrow> string \<Rightarrow> db \<Rightarrow> error + db" where
  "insert_account e userId accountNumber accountType balance status d =
     (if insert_fails e then Inl SqliteError
      else Inr (d\<lparr>accounts := accounts d @
        [\<lparr>a_id = next_rowid (map a_id (accounts d)), a_userId = userId,
          a_accountNumber = accountNumber, a_accountType = accountType,
          a_balance = balance, a_status = status, a_createdAt = now e\<rparr>]\<rparr>))"

text \<open>
  Modelled from the spec: the statement
  \<^verbatim>\<open>INSERT INTO transactions (account_id, type, amount, description, status, processed_at)\<close>
  run on the handle of \<open>lib/db\<close>; the result carries \<open>lastInsertRowid\<close>.
\<close>

definition insert_transaction ::
  "env \<Rightarrow> int \<Rightarrow> string \<Rightarrow> number \<Rightarrow> string \<Rightarrow> string \<Rightarrow> nat \<Rightarrow> db \<Rightarrow> error + (int \<times> db)" where
  "insert_transaction e account_id type amount description status processed_at d =
     (if insert_fails e then Inl SqliteError
      else
        (let lastInsertRowid = next_rowid (map t_id (transactions d))
         in Inr (lastInsertRowid, d\<lparr>transactions := transactions d @
           [\<lparr>t_id = lastInsertRowid, t_accountId = account_id, t_type = type,
             t_amount = amount, t_description = description, t_status = status,
             t_createdAt = now e, t_processedAt = processed_at\<rparr>]\<rparr>)))"

text \<open>
  Modelled from the spec: the statement
  \<^verbatim>\<open>UPDATE accounts SET balance = balance + ? WHERE id = ?\<close>, which the store applies
  to every row of that id.
\<close>

definition update_balance :: "env \<Rightarrow> number \<Rightarrow> int \<Rightarrow> db \<Rightarrow> error + db" where
  "update_balance e amount account_id d =
     (if update_fails e then Inl SqliteError
      else Inr (d\<lparr>accounts :=
        map (\<lambda>a. if a_id a = account_id then a\<lparr>a_balance := a_balance a + amount\<rparr> else a)
          (accounts d)\<rparr>))"

text \<open>
  Modelled from the spec: the statement \<^verbatim>\<open>SELECT * FROM transactions WHERE id = ?\<close>,
  issued after the insert.
\<close>

definition select_transaction :: "env \<Rightarrow> int \<Rightarrow> db \<Rightarrow> transaction_row option" where
  "select_transaction e transactionId d =
     (if transaction_read_empty e then None
      else select_get (\<lambda>t. t_id t = transactionId) (transactions d))"

text \<open>
  Modelled from the spec: the statement \<^verbatim>\<open>SELECT balance FROM accounts WHERE id = ?\<close>,
  issued after the update.
\<close>

definition select_balance :: "env \<Rightarrow> int \<Rightarrow> db \<Rightarrow> number option" where
  "select_balance e account_id d =
     (if account_read_empty e then None
      else map_option a_balance (select_get (\<lambda>a. a_id a = account_id) (accounts d)))"

text \<open>
  Modelled from the spec: \<open>rawDb.transaction(fn)()\<close> on the handle of \<open>lib/db\<close>, the
  storage engine's unit of atomicity. The statements of \<open>fn\<close> are committed together
  when it returns and rolled back together when it throws.
\<close>

definition rawDb_transaction :: "(db \<Rightarrow> error + ('r \<times> db)) \<Rightarrow> db \<Rightarrow> (error + 'r) \<times> db" where
  "rawDb_transaction fn d =
     (case fn d of Inl err \<Rightarrow> (Inl err, d) | Inr (r, d') \<Rightarrow> (Inr r, d'))"

text \<open>
  Modelled from the spec: \<open>.orderBy(desc(...))\<close> of a query of \<open>lib/db\<close>, that is
  \<open>ORDER BY created_at DESC\<close>. SQL leaves the order of rows with equal keys open; the
  model keeps them in table order.
\<close>

fun insert_desc :: "('r \<Rightarrow> nat) \<Rightarrow> 'r \<Rightarrow> 'r list \<Rightarrow> 'r list" where
  "insert_desc key x [] = [x]"
| "insert_desc key x (y # ys) =
     (if key y < key x then x # y # ys else y # insert_desc key x ys)"

definition orderBy_desc :: "('r \<Rightarrow> nat) \<Rightarrow> 'r list \<Rightarrow> 'r list" where
  "orderBy_desc key rows = foldl (\<lambda>sorted r. insert_desc key r sorted) [] rows"


section \<open>The account router\<close>

subsection \<open>createAccount\<close>

definition account_type_name :: "account_type \<Rightarrow> string" where
  "account_type_name t = (case t of Checking \<Rightarrow> ''checking'' | Savings \<Rightarrow> ''savings'')"

text \<open>
  The loop \<^verbatim>\<open>while (!isUnique) { accountNumber = generateAccountNumber(); ... }\<close>.
  \<open>draw k\<close> is the string the generator returns at the \<open>k\<close>-th iteration. The loop has no
  exit but a draw that no stored account carries, so it is a partial function: \<open>None\<close>
  stands for a loop that never ends.
\<close>

partial_function (option) uniqueAccountNumber ::
  "(nat \<Rightarrow> string) \<Rightarrow> account_row list \<Rightarrow> nat \<Rightarrow> string option" where
  "uniqueAccountNumber draw rows k =
     (if select_get (\<lambda>a. a_accountNumber a = draw k) rows = None then Some (draw k)
      else uniqueAccountNumber draw rows (Suc k))"

text \<open>
  \<open>createAccount\<close> of \<open>server/routers/account.ts\<close>, for the authenticated user
  \<open>userId\<close>. The result is \<open>None\<close> when the handler never returns.
\<close>

definition createAccount ::
  "env \<Rightarrow> (nat \<Rightarrow> real) \<Rightarrow> int \<Rightarrow> account_type \<Rightarrow> db \<Rightarrow> ((error + account_row) \<times> db) option" where
  "createAccount e random userId accountType d =
     (case select_get (\<lambda>a. a_userId a = userId \<and> a_accountType a = accountType) (accounts d) of
        Some existingAccount \<Rightarrow>
          Some (Inl (TRPCError CONFLICT
            (''You already have a '' @ account_type_name accountType @ '' account'')), d)
      | None \<Rightarrow>
          (case uniqueAccountNumber (\<lambda>k. generateAccountNumber (random k)) (accounts d) 0 of
             None \<Rightarrow> None
           | Some accountNumber \<Rightarrow>
               (case insert_account e userId accountNumber accountType (Num 0) ''active'' d of
                  Inl err \<Rightarrow> Some (Inl err, d)
                | Inr d' \<Rightarrow>
                    (let account =
                       (if account_read_empty e then None
                        else select_get (\<lambda>a. a_accountNumber a = accountNumber) (accounts d'))
                     in Some (Inr (case account of
                          Some a \<Rightarrow> a
                        | None \<Rightarrow>
                            \<lparr>a_id = 0, a_userId = userId, a_accountNumber = accountNumber,
                              a_accountType = accountType, a_balance = Num 100,
                              a_status = ''pending'', a_createdAt = now e\<rparr>), d')))))"

text \<open>
  The later revision: the random source is \<open>crypto.randomBytes\<close>, and a read-back that
  finds no row throws.
\<close>

definition createAccount_p2 ::
  "env \<Rightarrow> (nat \<Rightarrow> 32 word) \<Rightarrow> int \<Rightarrow> account_type \<Rightarrow> db \<Rightarrow> ((error + account_row) \<times> db) option" where
  "createAccount_p2 e random userId accountType d =
     (case select_get (\<lambda>a. a_userId a = userId \<and> a_accountType a = accountType) (accounts d) of
        Some existingAccount \<Rightarrow>
          Some (Inl (TRPCError CONFLICT
            (''You already have a '' @ account_type_name accountType @ '' account'')), d)
      | None \<Rightarrow>
          (case uniqueAccountNumber (\<lambda>k. generateAccountNumber_p2 (random k)) (accounts d) 0 of
             None \<Rightarrow> None
           | Some accountNumber \<Rightarrow>
               (case insert_account e userId accountNumber accountType (Num 0) ''active'' d of
                  Inl err \<Rightarrow> Some (Inl err, d)
                | Inr d' \<Rightarrow>
                    (let account =
                       (if account_read_empty e then None
                        else select_get (\<lambda>a. a_accountNumber a = accountNumber) (accounts d'))
                     in (case account of
                          None \<Rightarrow>
                            Some (Inl (TRPCError INTERNAL_SERVER_ERROR
                              ''Account was created but could not be retrieved. Please try again.''), d')
                        | Some a \<Rightarrow> Some (Inr a, d'))))))"


subsection \<open>fundAccount\<close>

datatype funding_type = Card | Bank

record funding_source =
  fs_type :: funding_type
  fs_accountNumber :: string
  fs_routingNumber :: "string option"

record fund_input =
  accountId :: int
  amount :: number
  fundingSource :: funding_source

record fund_result =
  transaction :: "transaction_row option"
  newBalance :: number

definition funding_type_name :: "funding_type \<Rightarrow> string" where
  "funding_type_name t = (case t of Card \<Rightarrow> ''card'' | Bank \<Rightarrow> ''bank'')"

text \<open>
  The function passed to \<open>rawDb.transaction\<close>, the same text in both revisions. The
  handler's \<open>amount\<close> is \<open>parseFloat(input.amount.toString())\<close>, which gives back
  \<open>input.amount\<close>; \<open>account\<close> is the row the ownership check has read before.
\<close>

definition fund_transaction ::
  "env \<Rightarrow> fund_input \<Rightarrow> account_row \<Rightarrow> db \<Rightarrow> error + (fund_result \<times> db)" where
  "fund_transaction e input account d =
     (case insert_transaction e (accountId input) ''deposit'' (amount input)
             (''Funding from '' @ funding_type_name (fs_type (fundingSource input)))
             ''completed'' (now e) d of
        Inl err \<Rightarrow> Inl err
      | Inr (transactionId, d1) \<Rightarrow>
          (case update_balance e (amount input) (accountId input) d1 of
             Inl err \<Rightarrow> Inl err
           | Inr d2 \<Rightarrow>
               (let transaction = select_transaction e transactionId d2;
                    updatedAccount = select_balance e (accountId input) d2
                in Inr (\<lparr>transaction = transaction,
                         newBalance = (case updatedAccount of
                            Some balance \<Rightarrow> balance
                          | None \<Rightarrow> a_balance account + amount input)\<rparr>, d2))))"

text \<open>
  The input schema of \<open>server/routers/account.ts\<close>: \<open>amount: z.number().positive()\<close>.
  \<open>z.number()\<close> refuses \<open>NaN\<close> and nothing else that is a number, and \<open>positive()\<close>
  refuses a value \<open>\<le> 0\<close>; a refused input reaches the caller as a \<open>BAD_REQUEST\<close>
  (the message is the schema's issue). The account id is taken as an integer: a number
  that is not one matches no stored id.
\<close>

definition fundAccount_input :: "fund_input \<Rightarrow> error + fund_input" where
  "fundAccount_input input =
     (if isNaN (amount input) then Inl (TRPCError BAD_REQUEST ''Expected number, received nan'')
      else if js_less_eq (amount input) (Num 0)
        then Inl (TRPCError BAD_REQUEST ''Number must be greater than 0'')
      else Inr input)"

text \<open>
  The handler awaits the query that verifies the account belongs to the user, and runs
  to its end after that. \<open>fundAccount_before_await\<close> is the call up to the \<open>await\<close>
  (the input schema, then the query), \<open>fundAccount_after_await\<close> the rest, given the
  row the query has found.
\<close>

definition fundAccount_before_await ::
  "int \<Rightarrow> fund_input \<Rightarrow> db \<Rightarrow> error + account_row option" where
  "fundAccount_before_await userId input d =
     (case fundAccount_input input of
        Inl err \<Rightarrow> Inl err
      | Inr parsed \<Rightarrow>
          Inr (select_get (\<lambda>a. a_id a = accountId parsed \<and> a_userId a = userId) (accounts d)))"

definition fundAccount_after_await ::
  "env \<Rightarrow> fund_input \<Rightarrow> account_row option \<Rightarrow> db \<Rightarrow> (error + fund_result) \<times> db" where
  "fundAccount_after_await e input found d =
     (case found of
        None \<Rightarrow> (Inl (TRPCError NOT_FOUND ''Account not found''), d)
      | Some account \<Rightarrow>
          if a_status account \<noteq> ''active''
          then (Inl (TRPCError BAD_REQUEST ''Account is not active''), d)
          else rawDb_transaction (fund_transaction e input account) d)"

definition fundAccount :: "env \<Rightarrow> int \<Rightarrow> fund_input \<Rightarrow> db \<Rightarrow> (error + fund_result) \<times> db" where
  "fundAccount e userId input d =
     (case fundAccount_before_await userId input d of
        Inl err \<Rightarrow> (Inl err, d)
      | Inr found \<Rightarrow> fundAccount_after_await e input found d)"

text \<open>
  The later revision. Its schema bounds the amount (\<open>positive\<close>, \<open>min(0.01)\<close>,
  \<open>max(10000)\<close>, \<open>refine(val > 0)\<close>) and asks a bank source for a routing number of nine
  digits (the literal \<open>0.01\<close> is the double nearest to 1 / 100); the handler repeats
  the checks and validates a card number with
  \<open>validateCardNumber\<close> of \<open>lib/card-validation\<close>, which is a parameter here (the result
  is the \<open>valid\<close> flag with the \<open>errors\<close>).
\<close>

definition isSpace :: "char \<Rightarrow> bool" where
  "isSpace c = (of_char c \<in> {9, 10, 11, 12, 13, 32 :: nat})"

definition trim :: "string \<Rightarrow> string" where
  "trim s = rev (dropWhile isSpace (rev (dropWhile isSpace s)))"

definition nine_digits :: "string \<Rightarrow> bool" where
  "nine_digits s = (length s = 9 \<and> list_all isDigit s)"

fun join :: "string \<Rightarrow> string list \<Rightarrow> string" where
  "join sep [] = []"
| "join sep [x] = x"
| "join sep (x # y # ys) = x @ sep @ join sep (y # ys)"

definition fundAccount_input_p2 :: "fund_input \<Rightarrow> error + fund_input" where
  "fundAccount_input_p2 input =
     (if isNaN (amount input) then Inl (TRPCError BAD_REQUEST ''Expected number, received nan'')
      else if js_less_eq (amount input) (Num 0)
        then Inl (TRPCError BAD_REQUEST ''Amount must be greater than $0.00'')
      else if js_less (amount input) (to_double (1 / 100))
        then Inl (TRPCError BAD_REQUEST ''Amount must be at least $0.01'')
      else if js_less (Num 10000) (amount input)
        then Inl (TRPCError BAD_REQUEST ''Amount cannot exceed $10,000'')
      else if js_less (Num 0) (amount input) then
        (case fs_type (fundingSource input) of
           Card \<Rightarrow> Inr input
         | Bank \<Rightarrow>
             (case fs_routingNumber (fundingSource input) of
                None \<Rightarrow> Inl (TRPCError BAD_REQUEST ''Routing number is required for bank transfers'')
              | Some routingNumber \<Rightarrow>
                  if routingNumber = [] \<or> trim routingNumber = []
                  then Inl (TRPCError BAD_REQUEST ''Routing number is required for bank transfers'')
                  else if nine_digits routingNumber then Inr input
                  else Inl (TRPCError BAD_REQUEST ''Routing number must be exactly 9 digits'')))
      else Inl (TRPCError BAD_REQUEST ''Amount must be greater than $0.00''))"

definition fundAccount_before_await_p2 ::
  "int \<Rightarrow> fund_input \<Rightarrow> db \<Rightarrow> error + account_row option" where
  "fundAccount_before_await_p2 userId input d =
     (case fundAccount_input_p2 input of
        Inl err \<Rightarrow> Inl err
      | Inr parsed \<Rightarrow>
          if js_less_eq (amount parsed) (Num 0) \<or> isNaN (amount parsed)
          then Inl (TRPCError BAD_REQUEST ''Amount must be greater than $0.00'')
          else if js_less (amount parsed) (to_double (1 / 100))
          then Inl (TRPCError BAD_REQUEST ''Amount must be at least $0.01'')
          else Inr (select_get (\<lambda>a. a_id a = accountId parsed \<and> a_userId a = userId)
                 (accounts d)))"

definition fundAccount_after_await_p2 ::
  "(string \<Rightarrow> bool \<times> string list) \<Rightarrow> env \<Rightarrow> fund_input \<Rightarrow> account_row option \<Rightarrow> db \<Rightarrow>
     (error + fund_result) \<times> db" where
  "fundAccount_after_await_p2 validateCardNumber e input found d =
     (case found of
        None \<Rightarrow> (Inl (TRPCError NOT_FOUND ''Account not found''), d)
      | Some account \<Rightarrow>
          if a_status account \<noteq> ''active''
          then (Inl (TRPCError BAD_REQUEST ''Account is not active''), d)
          else
            (case fs_type (fundingSource input) of
               Card \<Rightarrow>
                 (case validateCardNumber (fs_accountNumber (fundingSource input)) of
                    (valid, errors) \<Rightarrow>
                      if valid then rawDb_transaction (fund_transaction e input account) d
                      else (Inl (TRPCError BAD_REQUEST (join ''. '' errors)), d))
             | Bank \<Rightarrow>
                 (case fs_routingNumber (fundingSource input) of
                    None \<Rightarrow>
                      (Inl (TRPCError BAD_REQUEST
                         ''Routing number is required for bank transfers''), d)
                  | Some routingNumber \<Rightarrow>
                      if routingNumber = [] \<or> trim routingNumber = []
                      then (Inl (TRPCError BAD_REQUEST
                         ''Routing number is required for bank transfers''), d)
                      else if nine_digits routingNumber
                      then rawDb_transaction (fund_transaction e input account) d
                      else (Inl (TRPCError BAD_REQUEST
                         ''Routing number must be exactly 9 digits''), d))))"

definition fundAccount_p2 ::
  "(string \<Rightarrow> bool \<times> string list) \<Rightarrow> env \<Rightarrow> int \<Rightarrow> fund_input \<Rightarrow> db \<Rightarrow>
     (error + fund_result) \<times> db" where
  "fundAccount_p2 validateCardNumber e userId input d =
     (case fundAccount_before_await_p2 userId input d of
        Inl err \<Rightarrow> (Inl err, d)
      | Inr found \<Rightarrow> fundAccount_after_await_p2 validateCardNumber e input found d)"

subsection \<open>getTransactions\<close>

text \<open>
  \<open>getTransactions\<close> of \<open>server/routers/account.ts\<close>: the query has no \<open>ORDER BY\<close>, and
  each transaction is paired with the type of the account that a further query finds.
\<close>

definition getTransactions ::
  "int \<Rightarrow> int \<Rightarrow> db \<Rightarrow> error + (transaction_row \<times> account_type option) list" where
  "getTransactions userId account_id d =
     (case select_get (\<lambda>a. a_id a = account_id \<and> a_userId a = userId) (accounts d) of
        None \<Rightarrow> Inl (TRPCError NOT_FOUND ''Account not found'')
      | Some account \<Rightarrow>
          (let accountTransactions =
                 select_all (\<lambda>t. t_accountId t = account_id) (transactions d)
           in Inr (map (\<lambda>t.
                (t, map_option a_accountType
                      (select_get (\<lambda>a. a_id a = t_accountId t) (accounts d))))
              accountTransactions)))"

text \<open>
  The later revision: \<open>.orderBy(desc(transactions.createdAt))\<close>, and the type of the
  account already read.
\<close>

definition getTransactions_p2 ::
  "int \<Rightarrow> int \<Rightarrow> db \<Rightarrow> error + (transaction_row \<times> account_type option) list" where
  "getTransactions_p2 userId account_id d =
     (case select_get (\<lambda>a. a_id a = account_id \<and> a_userId a = userId) (accounts d) of
        None \<Rightarrow> Inl (TRPCError NOT_FOUND ''Account not found'')
      | Some account \<Rightarrow>
          (let accountTransactions =
                 orderBy_desc t_createdAt
                   (select_all (\<lambda>t. t_accountId t = account_id) (transactions d))
           in Inr (map (\<lambda>t. (t, Some (a_accountType account))) accountTransactions)))"


section \<open>Sequences of calls and their effects\<close>

text \<open>Calls made one after another, each on the store the one before has left.\<close>

fun run_calls :: "(db \<Rightarrow> 'r \<times> db) list \<Rightarrow> db \<Rightarrow> 'r list \<times> db" where
  "run_calls [] d = ([], d)"
| "run_calls (call # calls) d =
     (case call d of (r, d') \<Rightarrow> (case run_calls calls d' of (rs, d'') \<Rightarrow> (r # rs, d'')))"

text \<open>
  The vocabulary of the properties below. \<open>deposit_row\<close> is the row that one funding
  inserts, \<open>credit\<close> what its update does to a row of \<open>accounts\<close>, and
  \<open>funding_applied e input d d'\<close> says that \<open>d'\<close> is \<open>d\<close> after both writes of one
  funding: the one row appended, the target account (which exists) credited, nothing
  else changed. \<open>amounts_of\<close> lists the amounts recorded against an account, and
  \<open>opened_account\<close> is the row that \<open>createAccount\<close> inserts.
\<close>

definition credit :: "int \<Rightarrow> number \<Rightarrow> account_row \<Rightarrow> account_row" where
  "credit account_id v a = (if a_id a = account_id then a\<lparr>a_balance := a_balance a + v\<rparr> else a)"

definition deposit_row :: "env \<Rightarrow> fund_input \<Rightarrow> db \<Rightarrow> transaction_row" where
  "deposit_row e input d =
     \<lparr>t_id = next_rowid (map t_id (transactions d)), t_accountId = accountId input,
       t_type = ''deposit'', t_amount = amount input,
       t_description = ''Funding from '' @ funding_type_name (fs_type (fundingSource input)),
       t_status = ''completed'', t_createdAt = now e, t_processedAt = now e\<rparr>"

definition funding_applied :: "env \<Rightarrow> fund_input \<Rightarrow> db \<Rightarrow> db \<Rightarrow> bool" where
  "funding_applied e input d d' =
     (transactions d' = transactions d @ [deposit_row e input d] \<and>
      accounts d' = map (credit (accountId input) (amount input)) (accounts d) \<and>
      (\<exists>b. select_balance quiet (accountId input) d = Some b \<and>
           select_balance quiet (accountId input) d' = Some (b + amount input)))"

definition amounts_of :: "int \<Rightarrow> db \<Rightarrow> number list" where
  "amounts_of account_id d =
     map t_amount (select_all (\<lambda>t. t_accountId t = account_id) (transactions d))"

definition opened_account :: "env \<Rightarrow> int \<Rightarrow> string \<Rightarrow> account_type \<Rightarrow> db \<Rightarrow> account_row" where
  "opened_account e userId accountNumber accountType d =
     \<lparr>a_id = next_rowid (map a_id (accounts d)), a_userId = userId,
       a_accountNumber = accountNumber, a_accountType = accountType,
       a_balance = Num 0, a_status = ''active'', a_createdAt = now e\<rparr>"

text \<open>
  Amounts added one after the other to a balance of 0, each sum rounded as \<open>+\<close>
  rounds it.
\<close>

definition added_up :: "number list \<Rightarrow> number" where
  "added_up amounts = foldl (+) (Num 0) amounts"

text \<open>An amount that is a finite number above zero.\<close>

definition positive_finite :: "number \<Rightarrow> bool" where
  "positive_finite n = (case n of Num x \<Rightarrow> 0 < x | _ \<Rightarrow> False)"

text \<open>Sample values, for the concrete instances of the theorems.\<close>

definition empty_db :: db where
  "empty_db = \<lparr>accounts = [], transactions = []\<rparr>"

definition opened :: account_row where
  "opened = \<lparr>a_id = 1, a_userId = 1, a_accountNumber = ''0000000000'',
     a_accountType = Checking, a_balance = Num 0, a_status = ''active'', a_createdAt = 0\<rparr>"

definition opened_db :: db where
  "opened_db = \<lparr>accounts = [opened], transactions = []\<rparr>"

definition deposit :: "real \<Rightarrow> fund_input" where
  "deposit x = \<lparr>accountId = 1, amount = Num x,
     fundingSource = \<lparr>fs_type = Bank, fs_accountNumber = ''12345678'',
       fs_routingNumber = Some ''123456789''\<rparr>\<rparr>"

definition any_card :: "string \<Rightarrow> bool \<times> string list" where
  "any_card cardNumber = (True, [])"

text \<open>
  The doubles that JavaScript writes \<open>0.1\<close>, \<open>0.2\<close> and \<open>0.3\<close>, and the store after
  account 1 has been funded with \<open>2 ^ 53\<close>.
\<close>

definition tenth :: real where
  "tenth = 3602879701896397 / 2 ^ 55"

definition fifth :: real where
  "fifth = 3602879701896397 / 2 ^ 54"

definition three_tenths :: real where
  "three_tenths = 5404319552844595 / 2 ^ 54"

definition big_db :: db where
  "big_db =
     \<lparr>accounts = [opened\<lparr>a_balance := Num 9007199254740992\<rparr>],
       transactions = [deposit_row quiet (deposit 9007199254740992) opened_db]\<rparr>"

text \<open>
  Three fundings of account 1, with \<open>0.1\<close>, \<open>0.2\<close> and \<open>0.3\<close> at the instants 1, 2 and 3,
  and the store that they leave.
\<close>

definition three_deposits :: "(env \<times> fund_input) list" where
  "three_deposits =
     [(quiet\<lparr>now := 1\<rparr>, deposit tenth), (quiet\<lparr>now := 2\<rparr>, deposit fifth),
      (quiet\<lparr>now := 3\<rparr>, deposit three_tenths)]"

definition three_db :: db where
  "three_db =
     \<lparr>accounts = [opened\<lparr>a_balance := Num (5404319552844596 / 2 ^ 53)\<rparr>],
       transactions =
         [deposit_row (quiet\<lparr>now := 1\<rparr>) (deposit tenth) opened_db,
          (deposit_row (quiet\<lparr>now := 2\<rparr>) (deposit fifth) opened_db)\<lparr>t_id := 2\<rparr>,
          (deposit_row (quiet\<lparr>now := 3\<rparr>) (deposit three_tenths) opened_db)\<lparr>t_id := 3\<rparr>]\<rparr>"

text \<open>A store in which account 1 belongs to user 2.\<close>

definition foreign_db :: db where
  "foreign_db = \<lparr>accounts = [opened\<lparr>a_userId := 2\<rparr>], transactions = []\<rparr>"

definition two_deposits :: "(env \<times> fund_input) list" where
  "two_deposits = [(quiet, deposit 100), (quiet\<lparr>now := 5\<rparr>, deposit 50)]"

definition two_results :: "(error + fund_result) list" where
  "two_results =
     [Inr \<lparr>transaction = Some (deposit_row quiet (deposit 100) opened_db),
            newBalance = Num 100\<rparr>,
      Inr \<lparr>transaction =
              Some ((deposit_row (quiet\<lparr>now := 5\<rparr>) (deposit 50) opened_db)\<lparr>t_id := 2\<rparr>),
            newBalance = Num 150\<rparr>]"

definition funded_db :: db where
  "funded_db =
     \<lparr>accounts = [opened\<lparr>a_balance := Num 150\<rparr>],
       transactions =
         [deposit_row quiet (deposit 100) opened_db,
          (deposit_row (quiet\<lparr>now := 5\<rparr>) (deposit 50) opened_db)\<lparr>t_id := 2\<rparr>]\<rparr>"


section \<open>Concurrent calls\<close>

text \<open>
  The server runs its handlers on one thread: a handler runs without interruption up to
  an \<open>await\<close>, where the others get their turn. \<open>fundAccount\<close> has one \<open>await\<close>, on the
  query that verifies the owner; what follows, the transaction included, is synchronous.
  A call in flight is therefore in one of three phases, a step takes it to the next, and
  an interleaving of several calls is a schedule: the list of the calls' indices in the
  order in which they take their steps.
\<close>

datatype fund_phase = Called | Awaiting "account_row option" | Returned "error + fund_result"

type_synonym fund_call =
  "(db \<Rightarrow> error + account_row option) \<times>
   (account_row option \<Rightarrow> db \<Rightarrow> (error + fund_result) \<times> db)"

fun advance :: "fund_call \<Rightarrow> fund_phase \<Rightarrow> db \<Rightarrow> fund_phase \<times> db" where
  "advance (before_await, after_await) Called d =
     (case before_await d of
        Inl err \<Rightarrow> (Returned (Inl err), d)
      | Inr found \<Rightarrow> (Awaiting found, d))"
| "advance (before_await, after_await) (Awaiting found) d =
     (case after_await found d of (r, d') \<Rightarrow> (Returned r, d'))"
| "advance (before_await, after_await) (Returned r) d = (Returned r, d)"

fun interleave :: "fund_call list \<Rightarrow> nat list \<Rightarrow> fund_phase list \<times> db \<Rightarrow> fund_phase list \<times> db" where
  "interleave calls [] s = s"
| "interleave calls (i # schedule) (phases, d) =
     (if i < length calls
      then (case advance (calls ! i) (phases ! i) d of
              (phase, d') \<Rightarrow> interleave calls schedule (phases[i := phase], d'))
      else interleave calls schedule (phases, d))"

text \<open>The two segments of a call, for each revision.\<close>

definition fund_call :: "env \<Rightarrow> int \<Rightarrow> fund_input \<Rightarrow> fund_call" where
  "fund_call e userId input =
     (fundAccount_before_await userId input, fundAccount_after_await e input)"

definition fund_call_p2 ::
  "(string \<Rightarrow> bool \<times> string list) \<Rightarrow> env \<Rightarrow> int \<Rightarrow> fund_input \<Rightarrow> fund_call" where
  "fund_call_p2 validateCardNumber e userId input =
     (fundAccount_before_await_p2 userId input,
      fundAccount_after_await_p2 validateCardNumber e input)"

text \<open>
  For the proofs: the store after the two writes of a funding, how far a call has come,
  how many calls of a list have returned, and the phases a successful call goes through.
\<close>

definition funded :: "env \<Rightarrow> fund_input \<Rightarrow> db \<Rightarrow> db" where
  "funded e input d =
     d\<lparr>transactions := transactions d @ [deposit_row e input d],
       accounts := map (credit (accountId input) (amount input)) (accounts d)\<rparr>"

fun rank :: "fund_phase \<Rightarrow> nat" where
  "rank Called = 0"
| "rank (Awaiting found) = 1"
| "rank (Returned r) = 2"

definition returned :: "fund_phase list \<Rightarrow> nat" where
  "returned phases = sum_list (map (\<lambda>p. rank p div 2) phases)"

definition on_track :: "fund_phase \<Rightarrow> bool" where
  "on_track p = (case p of
      Called \<Rightarrow> True
    | Awaiting found \<Rightarrow> (case found of None \<Rightarrow> False | Some a \<Rightarrow> a_status a = ''active'')
    | Returned r \<Rightarrow> \<not> isl r)"

section \<open>Properties of the number conversions\<close>

lemma digit_char_isDigit: "d < 10 \<Longrightarrow> isDigit (digit_char d)"
  by (simp add: digit_char_def isDigit_def)

lemma digit_value_digit_char: "d < 10 \<Longrightarrow> digit_value (digit_char d) = d"
  by (simp add: digit_char_def digit_value_def)

text \<open>Equations that evaluate the conversion on numerals.\<close>

lemma digit_char_simps:
  "digit_char 0 = CHR ''0''" "digit_char (Suc 0) = CHR ''1''" "digit_char 2 = CHR ''2''"
  "digit_char 3 = CHR ''3''" "digit_char 4 = CHR ''4''" "digit_char 5 = CHR ''5''"
  "digit_char 6 = CHR ''6''" "digit_char 7 = CHR ''7''" "digit_char 8 = CHR ''8''"
  "digit_char 9 = CHR ''9''"
  by code_simp+

lemma replicate_numeral: "replicate (numeral k) x = x # replicate (pred_numeral k) x"
  by (simp add: numeral_eq_Suc)

lemma digits_numeral:
  "digits (numeral k) = (if (numeral k :: nat) < 10 then [digit_char (numeral k)]
     else digits (numeral k div 10) @ [digit_char (numeral k mod 10)])"
  "digits (Suc 0) = [digit_char (Suc 0)]"
  "digits 0 = [digit_char 0]"
  by (subst digits.simps, simp)+

lemma digits_isDigit: "list_all isDigit (digits n)"
proof (induction n rule: digits.induct)
  case (1 n)
  show ?case
  proof (cases "n < 10")
    case True
    then show ?thesis
      by (subst digits.simps) (simp add: digit_char_isDigit)
  next
    case False
    with "1" have "list_all isDigit (digits (n div 10))" by simp
    with False show ?thesis
      by (subst digits.simps) (simp add: digit_char_isDigit)
  qed
qed

lemma digits_length: "0 < k \<Longrightarrow> n < 10 ^ k \<Longrightarrow> length (digits n) \<le> k"
proof (induction k arbitrary: n)
  case 0
  then show ?case by simp
next
  case (Suc k)
  show ?case
  proof (cases "n < 10")
    case True
    then show ?thesis
      by (subst digits.simps) simp
  next
    case False
    then have k: "0 < k"
      using Suc.prems(2) by (cases k) auto
    have "n div 10 < 10 ^ k"
      using Suc.prems(2) by (simp add: less_mult_imp_div_less mult.commute)
    with k have "length (digits (n div 10)) \<le> k"
      by (rule Suc.IH)
    with False show ?thesis
      by (subst digits.simps) simp
  qed
qed

lemma decimal_value_snoc:
  "decimal_value (s @ [c]) = 10 * decimal_value s + digit_value c"
  by (simp add: decimal_value_def)

lemma decimal_value_digits: "decimal_value (digits n) = n"
proof (induction n rule: digits.induct)
  case (1 n)
  show ?case
  proof (cases "n < 10")
    case True
    then show ?thesis
      by (subst digits.simps) (simp add: decimal_value_def digit_value_digit_char)
  next
    case False
    with "1" have "decimal_value (digits (n div 10)) = n div 10" by simp
    with False show ?thesis
      by (subst digits.simps) (simp add: decimal_value_snoc digit_value_digit_char)
  qed
qed

lemma decimal_value_zeros: "decimal_value (replicate k (CHR ''0'') @ s) = decimal_value s"
proof -
  have "foldl (\<lambda>v c. 10 * v + digit_value c) 0 (replicate k (CHR ''0'')) = 0"
    by (induction k) (simp_all add: digit_value_def)
  then show ?thesis
    by (simp add: decimal_value_def)
qed

lemma padded_number:
  assumes "n < 1000000000"
  defines "s \<equiv> padStart 10 (CHR ''0'') (toString (int n))"
  shows "length s = 10" and "list_all isDigit s" and "decimal_value s = n"
    and "hd s = CHR ''0''"
proof -
  have ts: "toString (int n) = digits n"
    by (simp add: toString_def)
  have "n < 10 ^ 9" using assms(1) by simp
  then have len: "length (digits n) \<le> 9"
    by (intro digits_length) simp_all
  then have k: "10 - length (digits n) = Suc (9 - length (digits n))"
    by arith
  show "length s = 10"
    using len by (simp add: s_def padStart_def ts)
  have "list_all isDigit (replicate m (CHR ''0''))" for m
    by (induction m) (simp_all add: isDigit_def)
  then show "list_all isDigit s"
    by (simp add: s_def padStart_def ts digits_isDigit)
  show "decimal_value s = n"
    by (simp add: s_def padStart_def ts decimal_value_zeros decimal_value_digits)
  show "hd s = CHR ''0''"
    by (simp add: s_def padStart_def ts k)
qed

lemma floor_random_range:
  fixes r :: real
  assumes "0 \<le> r" and "r < 1"
  shows "0 \<le> \<lfloor>r * 1000000000\<rfloor>" and "\<lfloor>r * 1000000000\<rfloor> < 1000000000"
proof -
  show "0 \<le> \<lfloor>r * 1000000000\<rfloor>"
    using assms(1) by simp
  have "r * 1000000000 < 1000000000"
    using assms(2) by simp
  then show "\<lfloor>r * 1000000000\<rfloor> < 1000000000"
    by (simp add: floor_less_iff)
qed

text \<open>
  C10. Every string returned by \<open>generateAccountNumber\<close>, in both revisions of the router,
  has exactly 10 decimal digits, a numeric value below \<open>10^9\<close>, and therefore the first
  character \<open>0\<close>. For the \<open>Math.random\<close> revision the draw lies in \<open>[0, 1)\<close>, as
  \<open>Math.random\<close> guarantees.
\<close>

theorem generateAccountNumber_leading_zero:
  "(0 \<le> r \<and> r < 1 \<longrightarrow>
      length (generateAccountNumber r) = 10 \<and>
      list_all isDigit (generateAccountNumber r) \<and>
      decimal_value (generateAccountNumber r) < 10 ^ 9 \<and>
      hd (generateAccountNumber r) = CHR ''0'') \<and>
   length (generateAccountNumber_p2 w) = 10 \<and>
   list_all isDigit (generateAccountNumber_p2 w) \<and>
   decimal_value (generateAccountNumber_p2 w) < 10 ^ 9 \<and>
   hd (generateAccountNumber_p2 w) = CHR ''0''"
proof -
  have p2: "unat w mod 1000000000 < 1000000000"
    by simp
  have second: "length (generateAccountNumber_p2 w) = 10 \<and>
      list_all isDigit (generateAccountNumber_p2 w) \<and>
      decimal_value (generateAccountNumber_p2 w) < 10 ^ 9 \<and>
      hd (generateAccountNumber_p2 w) = CHR ''0''"
    using padded_number [OF p2] by (simp add: generateAccountNumber_p2_def)
  have first: "length (generateAccountNumber r) = 10 \<and>
      list_all isDigit (generateAccountNumber r) \<and>
      decimal_value (generateAccountNumber r) < 10 ^ 9 \<and>
      hd (generateAccountNumber r) = CHR ''0''" if "0 \<le> r" and "r < 1"
  proof -
    define n where "n = nat \<lfloor>r * 1000000000\<rfloor>"
    have fl: "\<lfloor>r * 1000000000\<rfloor> = int n"
      using floor_random_range(1) [OF that] by (simp add: n_def)
    have n: "n < 1000000000"
      using floor_random_range(2) [OF that] fl by simp
    show ?thesis
      using padded_number [OF n] n by (simp add: generateAccountNumber_def fl)
  qed
  from first second show ?thesis by blast
qed

theorem generateAccountNumber_leading_zero_witness:
  "(0::real) \<le> 1 / 2 \<and> (1 / 2 :: real) < 1 \<and>
   length (generateAccountNumber (1 / 2)) = 10 \<and>
   hd (generateAccountNumber (1 / 2)) = CHR ''0'' \<and>
   generateAccountNumber (1 / 2) = ''0500000000'' \<and>
   hd (generateAccountNumber_p2 4294967295) = CHR ''0''"
proof -
  have "\<lfloor>(1 / 2 :: real) * 1000000000\<rfloor> = 500000000"
    by simp
  moreover have "padStart 10 (CHR ''0'') (toString 500000000) = ''0500000000''"
    by (simp add: padStart_def toString_def digits_numeral digit_char_simps)
  ultimately have "generateAccountNumber (1 / 2) = ''0500000000''"
    by (simp add: generateAccountNumber_def)
  then show ?thesis
    using generateAccountNumber_leading_zero [of "1 / 2" 4294967295] by simp
qed

lemma generateAccountNumber_0:
  "generateAccountNumber 0 = ''0000000000''" "generateAccountNumber_p2 0 = ''0000000000''"
  by (simp_all add: generateAccountNumber_def generateAccountNumber_p2_def padStart_def
      toString_def digits_numeral digit_char_simps replicate_numeral)


section \<open>Properties of the addition\<close>

text \<open>Equations that evaluate the rounding on numerals.\<close>

lemma halvings_numeral:
  "halvings (numeral k) =
     (if (2::real) \<le> numeral k then Suc (halvings (numeral k / 2)) else 0)"
  "halvings (numeral k / numeral l) =
     (if (2::real) \<le> numeral k / numeral l then Suc (halvings (numeral k / numeral l / 2))
      else 0)"
  "halvings 1 = 0"
  by (subst halvings.simps, simp)+

lemma doublings_numeral:
  "doublings (numeral n) x = (if x < 1 then Suc (doublings (pred_numeral n) (2 * x)) else 0)"
  by (simp add: numeral_eq_Suc)

lemma to_double_cent: "to_double (1 / 100) = Num (5764607523034235 / 2 ^ 59)"
  by (simp add: to_double_def ulp_def exponent_def doublings_numeral round_half_even_def Let_def)

lemmas double_eval =
  to_double_def ulp_def exponent_def halvings_numeral doublings_numeral round_half_even_def
  Let_def

text \<open>
  Rounding leaves every double as it is: a value \<open>m * 2 powi e\<close> with a significand
  \<open>m\<close> of at most 53 bits, an exponent \<open>e\<close> of at least -1074, and in range. In
  particular every whole number below \<open>2 ^ 53\<close> is a double.
\<close>

lemma halvings_bounds:
  "1 \<le> x \<Longrightarrow> 2 ^ halvings x \<le> x \<and> x < 2 ^ Suc (halvings x)"
proof (induction x rule: halvings.induct)
  case (1 x)
  show ?case
  proof (cases "2 \<le> x")
    case True
    then have "1 \<le> x / 2" by simp
    from "1.IH" [OF True this] have "2 ^ halvings (x / 2) \<le> x / 2"
      and "x / 2 < 2 ^ Suc (halvings (x / 2))" by simp_all
    moreover have "halvings x = Suc (halvings (x / 2))"
      using True by (subst halvings.simps) simp
    ultimately show ?thesis by simp
  next
    case False
    then have "halvings x = 0"
      by (subst halvings.simps) simp
    with False "1.prems" show ?thesis by simp
  qed
qed

lemma doublings_bounds:
  "doublings n x = n \<or> 1 \<le> x * 2 ^ doublings n x"
proof (induction n arbitrary: x)
  case 0
  show ?case by simp
next
  case (Suc n)
  from Suc [of "2 * x"] show ?case
    by (auto simp: mult.assoc)
qed

lemma round_half_even_of_int: "round_half_even (of_int k) = k"
  by (simp add: round_half_even_def)

lemma exponent_le:
  assumes "\<bar>x\<bar> < 2 powi (e + 53)" and "- 1074 \<le> e"
  shows "exponent x - 52 \<le> e"
proof (cases "1 \<le> \<bar>x\<bar>")
  case True
  from halvings_bounds [OF True] have "2 ^ halvings \<bar>x\<bar> \<le> \<bar>x\<bar>" by simp
  with assms(1) have "(2::real) powi int (halvings \<bar>x\<bar>) < 2 powi (e + 53)"
    by simp
  then have "int (halvings \<bar>x\<bar>) < e + 53"
    by (metis linorder_not_less one_le_numeral power_int_increasing)
  with True show ?thesis
    by (simp add: exponent_def)
next
  case False
  let ?d = "doublings 1022 \<bar>x\<bar>"
  from doublings_bounds [of 1022 "\<bar>x\<bar>"] show ?thesis
  proof
    assume "?d = 1022"
    with False assms(2) show ?thesis by (simp add: exponent_def)
  next
    assume "1 \<le> \<bar>x\<bar> * 2 ^ ?d"
    then have "1 / 2 ^ ?d \<le> \<bar>x\<bar>"
      by (simp add: field_simps)
    then have "(2::real) powi (- int ?d) \<le> \<bar>x\<bar>"
      by (simp add: power_int_minus_divide)
    with assms(1) have "(2::real) powi (- int ?d) < 2 powi (e + 53)"
      by simp
    then have "- int ?d < e + 53"
      by (metis linorder_not_less one_le_numeral power_int_increasing)
    with False show ?thesis
      by (simp add: exponent_def)
  qed
qed

lemma to_double_exact:
  assumes x: "x = of_int m * 2 powi e"
    and m: "\<bar>m\<bar> < 2 ^ 53" and e: "- 1074 \<le> e" and fin: "\<bar>x\<bar> < 2 ^ 1024"
  shows "to_double x = Num x"
proof -
  have "\<bar>x\<bar> = of_int \<bar>m\<bar> * 2 powi e"
    by (simp add: x abs_mult)
  also have "\<dots> < 2 ^ 53 * 2 powi e"
  proof -
    from m have "(of_int \<bar>m\<bar> :: real) < of_int (2 ^ 53)"
      by (simp only: of_int_less_iff)
    then show ?thesis by simp
  qed
  also have "\<dots> = 2 powi (e + 53)"
    by (simp add: power_int_add)
  finally have "exponent x - 52 \<le> e"
    using e by (rule exponent_le)
  then obtain k where k: "e = (exponent x - 52) + int k"
    by (metis zle_iff_zadd)
  have "(2::real) powi e = 2 powi (exponent x - 52) * 2 powi int k"
    by (subst k) (simp add: power_int_add)
  then have pw: "(2::real) powi e = ulp x * 2 ^ k"
    by (simp add: ulp_def)
  have "x = of_int m * 2 powi e"
    by (fact x)
  also note pw
  also have "of_int m * (ulp x * 2 ^ k) = of_int (m * 2 ^ k) * ulp x"
    by simp
  finally have mult: "x = of_int (m * 2 ^ k) * ulp x" .
  have "ulp x \<noteq> 0"
    by (simp add: ulp_def)
  with mult have q: "x / ulp x = of_int (m * 2 ^ k)"
    by (metis nonzero_mult_div_cancel_right)
  have "of_int (round_half_even (x / ulp x)) * ulp x = x"
    unfolding q round_half_even_of_int using mult by simp
  with fin show ?thesis
    by (simp add: to_double_def Let_def)
qed

lemma is_double_of_int:
  assumes "\<bar>n\<bar> < 2 ^ 53"
  shows "is_double (of_int n)"
  unfolding is_double_def
proof (rule to_double_exact [where m = n and e = 0])
  show "(of_int n :: real) = of_int n * 2 powi 0" by simp
  show "\<bar>n\<bar> < 2 ^ 53" by fact
  show "- 1074 \<le> (0::int)" by simp
  from assms have "\<bar>of_int n :: real\<bar> < of_int (2 ^ 53)"
    by (simp only: of_int_abs [symmetric] of_int_less_iff)
  also have "\<dots> < 2 ^ 1024" by simp
  finally show "\<bar>of_int n :: real\<bar> < 2 ^ 1024" .
qed

text \<open>A sum that is a double is exact, and so is a total whose running sums all are.\<close>

lemma plus_exact: "is_double (x + y) \<Longrightarrow> Num x + Num y = Num (x + y)"
  by (simp add: is_double_def)

lemma foldl_plus_exact:
  "\<forall>k\<le>length xs. is_double (b + sum_list (take k xs)) \<Longrightarrow>
     foldl (+) (Num b) (map Num xs) = Num (b + sum_list xs)"
proof (induction xs rule: rev_induct)
  case Nil
  show ?case by simp
next
  case (snoc x xs)
  have "\<forall>k\<le>length xs. is_double (b + sum_list (take k xs))"
  proof (intro allI impI)
    fix k
    assume k: "k \<le> length xs"
    then have "k \<le> length (xs @ [x])" by simp
    with snoc.prems have "is_double (b + sum_list (take k (xs @ [x])))" by blast
    with k show "is_double (b + sum_list (take k xs))" by simp
  qed
  from snoc.IH [OF this] have "foldl (+) (Num b) (map Num xs) = Num (b + sum_list xs)" .
  moreover have "length (xs @ [x]) \<le> length (xs @ [x])" ..
  with snoc.prems have "is_double (b + sum_list (take (length (xs @ [x])) (xs @ [x])))"
    by blast
  then have "is_double ((b + sum_list xs) + x)"
    by (simp add: add.assoc)
  ultimately show ?case
    by (simp add: is_double_def add.assoc)
qed

lemma added_up_exact:
  "\<forall>k\<le>length xs. is_double (sum_list (take k xs)) \<Longrightarrow>
     added_up (map Num xs) = Num (sum_list xs)"
  using foldl_plus_exact [of xs 0] by (simp add: added_up_def)

text \<open>
  So an amount added \<open>K\<close> times gives \<open>K\<close> times the amount when every multiple on the
  way is a double, as it is for a whole amount while the sum stays below \<open>2 ^ 53\<close>.
\<close>

lemma added_up_replicate_exact:
  assumes "\<forall>k\<le>K. is_double (real k * v)"
  shows "added_up (replicate K (Num v)) = Num (real K * v)"
proof -
  have "\<forall>k\<le>length (replicate K v). is_double (sum_list (take k (replicate K v)))"
  proof (intro allI impI)
    fix k
    assume "k \<le> length (replicate K v)"
    then have k: "k \<le> K" by simp
    then have "sum_list (take k (replicate K v)) = real k * v"
      by (simp add: sum_list_replicate min_absorb1)
    with assms k show "is_double (sum_list (take k (replicate K v)))"
      by simp
  qed
  from added_up_exact [OF this] show ?thesis
    by (simp add: sum_list_replicate)
qed

lemma added_up_whole:
  assumes "0 \<le> n" and "int K * n < 2 ^ 53"
  shows "added_up (replicate K (Num (of_int n))) = Num (of_int (int K * n))"
proof -
  have "\<forall>k\<le>K. is_double (real k * of_int n)"
  proof (intro allI impI)
    fix k
    assume "k \<le> K"
    with assms(1) have "int k * n \<le> int K * n"
      by (simp add: mult_right_mono)
    with assms have "\<bar>int k * n\<bar> < 2 ^ 53"
      by simp
    from is_double_of_int [OF this] show "is_double (real k * of_int n)"
      by simp
  qed
  from added_up_replicate_exact [OF this] show ?thesis
    by simp
qed


section \<open>The account-number loop\<close>

text \<open>
  Partial correctness of the loop, by the induction rule of the partial function: a
  returned string is one of the draws, and no stored account carries it.
\<close>

lemma uniqueAccountNumber_Some:
  assumes "uniqueAccountNumber draw rows k = Some s"
  shows "\<exists>j. k \<le> j \<and> s = draw j \<and>
    select_get (\<lambda>a. a_accountNumber a = draw j) rows = None"
  using assms
proof (induction rule: uniqueAccountNumber.raw_induct [rotated, consumes 1])
  case (1 unique draw rows k s)
  show ?case
  proof (cases "select_get (\<lambda>a. a_accountNumber a = draw k) rows = None")
    case True
    with 1(2) have "s = draw k" by simp
    with True show ?thesis by (intro exI [of _ k]) simp
  next
    case False
    with 1(2) have "unique draw rows (Suc k) = Some s" by simp
    from 1(1) [OF this] obtain j where j: "Suc k \<le> j \<and> s = draw j \<and>
      select_get (\<lambda>a. a_accountNumber a = draw j) rows = None" ..
    then show ?thesis by (intro exI [of _ j]) simp
  qed
qed

text \<open>Termination when some draw is free: the loop stops at the first such draw.\<close>

lemma uniqueAccountNumber_first:
  assumes "select_get (\<lambda>a. a_accountNumber a = draw (k + n)) rows = None"
    and "\<forall>j<n. select_get (\<lambda>a. a_accountNumber a = draw (k + j)) rows \<noteq> None"
  shows "uniqueAccountNumber draw rows k = Some (draw (k + n))"
  using assms
proof (induction n arbitrary: k)
  case 0
  then show ?case by (subst uniqueAccountNumber.simps) simp
next
  case (Suc n)
  from Suc.prems(2) have here: "select_get (\<lambda>a. a_accountNumber a = draw k) rows \<noteq> None"
    by (metis add.right_neutral zero_less_Suc)
  have "uniqueAccountNumber draw rows (Suc k) = Some (draw (Suc k + n))"
  proof (rule Suc.IH)
    show "select_get (\<lambda>a. a_accountNumber a = draw (Suc k + n)) rows = None"
      using Suc.prems(1) by simp
    show "\<forall>j<n. select_get (\<lambda>a. a_accountNumber a = draw (Suc k + j)) rows \<noteq> None"
      using Suc.prems(2) by (metis Suc_less_eq add_Suc_shift)
  qed
  with here show ?case by (subst uniqueAccountNumber.simps) auto
qed

lemma uniqueAccountNumber_never:
  assumes "\<forall>j. select_get (\<lambda>a. a_accountNumber a = draw j) rows \<noteq> None"
  shows "uniqueAccountNumber draw rows k = None"
proof (cases "uniqueAccountNumber draw rows k")
  case None
  then show ?thesis .
next
  case (Some s)
  from uniqueAccountNumber_Some [OF this] assms show ?thesis by blast
qed

text \<open>
  C9, as the code has it. The loop of \<open>createAccount\<close> has no retry cap: it returns the
  first draw that no stored account carries, after as many attempts as that takes, and
  when every draw collides with a stored account number it never returns; no error is
  raised on that path.
\<close>

theorem uniqueAccountNumber_unbounded:
  "(select_get (\<lambda>a. a_accountNumber a = draw n) rows = None \<and>
    (\<forall>j<n. select_get (\<lambda>a. a_accountNumber a = draw j) rows \<noteq> None)
      \<longrightarrow> uniqueAccountNumber draw rows 0 = Some (draw n)) \<and>
   ((\<forall>j. select_get (\<lambda>a. a_accountNumber a = draw j) rows \<noteq> None)
      \<longrightarrow> uniqueAccountNumber draw rows 0 = None)"
  using uniqueAccountNumber_first [of draw 0 n rows] uniqueAccountNumber_never [of draw rows 0]
  by simp

theorem uniqueAccountNumber_unbounded_witness:
  "uniqueAccountNumber (\<lambda>k. if k < 2 then ''0000000000'' else ''0000000007'')
     [\<lparr>a_id = 1, a_userId = 1, a_accountNumber = ''0000000000'',
        a_accountType = Checking, a_balance = Num 0, a_status = ''active'',
        a_createdAt = 0\<rparr>] 0 = Some ''0000000007'' \<and>
   uniqueAccountNumber (\<lambda>k. ''0000000000'')
     [\<lparr>a_id = 1, a_userId = 1, a_accountNumber = ''0000000000'',
        a_accountType = Checking, a_balance = Num 0, a_status = ''active'',
        a_createdAt = 0\<rparr>] 0 = None"
proof -
  let ?rows = "[\<lparr>a_id = 1, a_userId = 1, a_accountNumber = ''0000000000'',
        a_accountType = Checking, a_balance = Num 0, a_status = ''active'',
        a_createdAt = 0\<rparr>]"
  let ?d = "\<lambda>k::nat. if k < 2 then ''0000000000'' else ''0000000007''"
  have a: "select_get (\<lambda>a. a_accountNumber a = ?d 2) ?rows = None"
    by (simp add: select_get_def)
  have b: "\<forall>j<2. select_get (\<lambda>a. a_accountNumber a = ?d j) ?rows \<noteq> None"
    by (simp add: select_get_def)
  have c: "\<forall>j. select_get (\<lambda>a. a_accountNumber a = (\<lambda>k::nat. ''0000000000'') j) ?rows \<noteq> None"
    by (simp add: select_get_def)
  from a b c uniqueAccountNumber_unbounded [of ?d 2 ?rows]
    uniqueAccountNumber_unbounded [of "\<lambda>k. ''0000000000''" 0 ?rows]
  show ?thesis by simp
qed

text \<open>
  The claim as stated fails: with the account number \<open>0000000000\<close> stored and a random
  source whose every draw is \<open>0\<close>, \<open>createAccount\<close> never returns, in either revision.
\<close>

theorem createAccount_loop_counterexample:
  "createAccount quiet (\<lambda>k. 0) 2 Savings
     \<lparr>accounts = [\<lparr>a_id = 1, a_userId = 1, a_accountNumber = ''0000000000'',
        a_accountType = Checking, a_balance = Num 0, a_status = ''active'',
        a_createdAt = 0\<rparr>], transactions = []\<rparr> = None \<and>
   createAccount_p2 quiet (\<lambda>k. 0) 2 Savings
     \<lparr>accounts = [\<lparr>a_id = 1, a_userId = 1, a_accountNumber = ''0000000000'',
        a_accountType = Checking, a_balance = Num 0, a_status = ''active'',
        a_createdAt = 0\<rparr>], transactions = []\<rparr> = None"
proof -
  let ?rows = "[\<lparr>a_id = 1, a_userId = 1, a_accountNumber = ''0000000000'',
        a_accountType = Checking, a_balance = Num 0, a_status = ''active'',
        a_createdAt = 0\<rparr>]"
  have "uniqueAccountNumber (\<lambda>k. ''0000000000'') ?rows 0 = None"
    by (rule uniqueAccountNumber_never) (simp add: select_get_def)
  then show ?thesis
    by (simp add: createAccount_def createAccount_p2_def generateAccountNumber_0 select_get_def)
qed


section \<open>The read-back of createAccount\<close>

text \<open>
  C3 on \<open>server/routers/account.ts\<close>. The first account of user 1 is opened on an empty
  store and the read-back after the insert finds no row: the handler returns a record
  that is not in the store, with balance 100 and status \<open>pending\<close>, while the row it
  inserted has balance 0 and status \<open>active\<close>.
\<close>

theorem createAccount_fabricates_placeholder:
  "createAccount (quiet\<lparr>account_read_empty := True\<rparr>) (\<lambda>k. 0) 1 Checking
     \<lparr>accounts = [], transactions = []\<rparr> =
   Some (Inr \<lparr>a_id = 0, a_userId = 1, a_accountNumber = ''0000000000'',
            a_accountType = Checking, a_balance = Num 100, a_status = ''pending'',
            a_createdAt = 0\<rparr>,
         \<lparr>accounts = [\<lparr>a_id = 1, a_userId = 1, a_accountNumber = ''0000000000'',
            a_accountType = Checking, a_balance = Num 0, a_status = ''active'',
            a_createdAt = 0\<rparr>], transactions = []\<rparr>)"
proof -
  have "uniqueAccountNumber (\<lambda>k. ''0000000000'') [] 0 = Some ''0000000000''"
    by (subst uniqueAccountNumber.simps) (simp add: select_get_def)
  then show ?thesis
    by (simp add: createAccount_def generateAccountNumber_0 select_get_def insert_account_def
        quiet_def next_rowid_def)
qed

text \<open>
  The later revision does what the claim asks: when the read-back finds no row, a call
  that returns at all returns an error, and past the conflict check and the insert that
  error is \<open>INTERNAL_SERVER_ERROR\<close>.
\<close>

lemma createAccount_p2_read_back_lost:
  assumes "account_read_empty e"
    and "createAccount_p2 e random userId accountType d = Some (r, d')"
  shows "r = Inl (TRPCError CONFLICT
            (''You already have a '' @ account_type_name accountType @ '' account'')) \<or>
         r = Inl SqliteError \<or>
         r = Inl (TRPCError INTERNAL_SERVER_ERROR
            ''Account was created but could not be retrieved. Please try again.'')"
  using assms
  by (auto simp: createAccount_p2_def insert_account_def
      split: option.splits sum.splits if_splits)

section \<open>Atomicity of a funding\<close>

lemma next_rowid_fresh: "next_rowid ids \<notin> set ids"
proof (cases ids)
  case Nil
  then show ?thesis by simp
next
  case (Cons i rest)
  have "Max (set (i # rest)) = fold max rest i"
    by (rule Max.set_eq_fold)
  moreover have "\<forall>x\<in>set (i # rest). x \<le> Max (set (i # rest))"
    by (intro ballI Max_ge) simp_all
  ultimately have "\<forall>x\<in>set ids. x \<le> fold max rest i"
    using Cons by simp
  then show ?thesis
    using Cons by (auto simp: next_rowid_def)
qed

lemma fund_transaction_Inr:
  assumes "fund_transaction e input account d = Inr (res, d')"
  shows "d' = d\<lparr>transactions := transactions d @ [deposit_row e input d],
                 accounts := map (credit (accountId input) (amount input)) (accounts d)\<rparr>"
    and "\<not> insert_fails e" and "\<not> update_fails e"
  using assms
  by (auto simp: fund_transaction_def insert_transaction_def update_balance_def Let_def
      deposit_row_def credit_def fun_eq_iff split: if_splits)

lemma fund_transaction_Inl:
  assumes "fund_transaction e input account d = Inl err"
  shows "err = SqliteError" and "insert_fails e \<or> update_fails e"
  using assms
  by (auto simp: fund_transaction_def insert_transaction_def update_balance_def Let_def
      split: if_splits)

lemma fund_transaction_runs:
  assumes "\<not> insert_fails e" and "\<not> update_fails e"
  shows "\<exists>res d'. fund_transaction e input account d = Inr (res, d')"
  using assms
  by (simp add: fund_transaction_def insert_transaction_def update_balance_def Let_def)

lemma select_get_credit:
  "select_get (\<lambda>a. a_id a = i) (map (credit account_id v) rows) =
     map_option (credit account_id v) (select_get (\<lambda>a. a_id a = i) rows)"
  by (induction rows) (auto simp: select_get_def credit_def)

lemma select_owned_credit:
  "select_get (\<lambda>a. a_id a = i \<and> a_userId a = u) (map (credit account_id v) rows) =
     map_option (credit account_id v) (select_get (\<lambda>a. a_id a = i \<and> a_userId a = u) rows)"
  by (induction rows) (auto simp: select_get_def credit_def)

lemma select_get_weaken:
  "select_get (\<lambda>a. a_id a = i \<and> a_userId a = u) rows = Some a \<Longrightarrow>
     \<exists>b. select_get (\<lambda>a. a_id a = i) rows = Some b"
  by (induction rows) (auto simp: select_get_def split: if_splits)


lemma select_get_Some:
  "select_get P rows = Some b \<Longrightarrow> P b \<and> b \<in> set rows"
  by (auto simp: select_get_def find_Some_iff)

lemma rawDb_transaction_fund:
  assumes "select_get (\<lambda>a. a_id a = accountId input \<and> a_userId a = userId) (accounts d) =
    Some account"
  shows "case rawDb_transaction (fund_transaction e input account) d of
           (Inl err, d') \<Rightarrow> d' = d
         | (Inr res, d') \<Rightarrow> funding_applied e input d d'"
proof (cases "fund_transaction e input account d")
  case (Inl err)
  then show ?thesis by (simp add: rawDb_transaction_def)
next
  case (Inr p)
  obtain res d' where p: "p = (res, d')" by (cases p)
  note eff = fund_transaction_Inr(1) [OF Inr [unfolded p]]
  from select_get_weaken [OF assms] obtain b where
    b: "select_get (\<lambda>a. a_id a = accountId input) (accounts d) = Some b" ..
  have "select_balance quiet (accountId input) d = Some (a_balance b)"
    using b by (simp add: select_balance_def quiet_def)
  moreover have "select_balance quiet (accountId input) d' = Some (a_balance b + amount input)"
    using b eff select_get_Some [OF b]
    by (simp add: select_balance_def quiet_def select_get_credit credit_def)
  ultimately have "funding_applied e input d d'"
    using eff by (simp add: funding_applied_def)
  then show ?thesis
    using Inr p by (simp add: rawDb_transaction_def)
qed

lemma fundAccount_effect:
  "case fundAccount e userId input d of
      (Inl err, d') \<Rightarrow> d' = d
    | (Inr res, d') \<Rightarrow> funding_applied e input d d'"
  proof (cases "fundAccount_before_await userId input d")
    case (Inl err)
    then show ?thesis by (simp add: fundAccount_def)
  next
    case (Inr found)
    then have parsed: "fundAccount_input input = Inr input"
      and found: "found = select_get (\<lambda>a. a_id a = accountId input \<and> a_userId a = userId)
        (accounts d)"
      by (auto simp: fundAccount_before_await_def fundAccount_input_def
          split: sum.splits if_splits)
    show ?thesis
    proof (cases found)
      case None
      with Inr show ?thesis
        by (simp add: fundAccount_def fundAccount_after_await_def)
    next
      case (Some account)
      with found have sel: "select_get (\<lambda>a. a_id a = accountId input \<and> a_userId a = userId)
        (accounts d) = Some account" by simp
      from rawDb_transaction_fund [OF sel, of e] Inr Some
      show ?thesis
        by (simp add: fundAccount_def fundAccount_after_await_def)
    qed
  qed

lemma fundAccount_p2_effect:
  "case fundAccount_p2 validateCardNumber e userId input d of
      (Inl err, d') \<Rightarrow> d' = d
    | (Inr res, d') \<Rightarrow> funding_applied e input d d'"
  proof (cases "fundAccount_before_await_p2 userId input d")
    case (Inl err)
    then show ?thesis by (simp add: fundAccount_p2_def)
  next
    case (Inr found)
    then have found: "found = select_get (\<lambda>a. a_id a = accountId input \<and> a_userId a = userId)
        (accounts d)"
      by (auto simp: fundAccount_before_await_p2_def fundAccount_input_p2_def
          split: sum.splits if_splits funding_type.splits option.splits)
    show ?thesis
    proof (cases found)
      case None
      with Inr show ?thesis
        by (simp add: fundAccount_p2_def fundAccount_after_await_p2_def)
    next
      case (Some account)
      with found have sel: "select_get (\<lambda>a. a_id a = accountId input \<and> a_userId a = userId)
        (accounts d) = Some account" by simp
      from rawDb_transaction_fund [OF sel, of e] Inr Some
      show ?thesis
        by (simp add: fundAccount_p2_def fundAccount_after_await_p2_def
            split: funding_type.splits option.splits prod.splits)
    qed
  qed

lemma fundAccount_Inr:
  "fundAccount e userId input d = (Inr res, d') \<Longrightarrow> funding_applied e input d d'"
  using fundAccount_effect [where e = e and userId = userId and input = input and d = d]
  by simp

lemma fundAccount_p2_Inr:
  "fundAccount_p2 validateCardNumber e userId input d = (Inr res, d') \<Longrightarrow>
     funding_applied e input d d'"
  using fundAccount_p2_effect [where validateCardNumber = validateCardNumber and e = e
        and userId = userId and input = input and d = d]
  by simp

text \<open>
  C1. Every call of \<open>fundAccount\<close>, in both revisions and whatever fails on the way,
  either fails and leaves the store as it was, or succeeds with both writes applied:
  exactly one transaction row appended, and the balance of the target account replaced
  by the sum of the balance and the amount, rounded to a double as \<open>+\<close> rounds it. No
  outcome applies one write without the other.
\<close>

theorem fundAccount_all_or_nothing:
  "(case fundAccount e userId input d of
      (Inl err, d') \<Rightarrow> d' = d
    | (Inr res, d') \<Rightarrow> funding_applied e input d d') \<and>
   (case fundAccount_p2 validateCardNumber e userId input d of
      (Inl err, d') \<Rightarrow> d' = d
    | (Inr res, d') \<Rightarrow> funding_applied e input d d')"
  by (rule conjI [OF fundAccount_effect fundAccount_p2_effect])

text \<open>Evaluation of the handlers on the sample values.\<close>

lemma nine_digits_sample: "nine_digits ''123456789''"
  by (simp add: nine_digits_def isDigit_def)

lemma trim_sample: "trim ''123456789'' = ''123456789''"
  by (simp add: trim_def isSpace_def)

lemmas fund_eval =
  fundAccount_def fundAccount_before_await_def fundAccount_after_await_def
  fundAccount_input_def fundAccount_p2_def fundAccount_before_await_p2_def
  fundAccount_after_await_p2_def fundAccount_input_p2_def isNaN_def rawDb_transaction_def
  fund_transaction_def insert_transaction_def update_balance_def select_transaction_def
  select_balance_def select_get_def select_all_def next_rowid_def quiet_def
  nine_digits_sample trim_sample any_card_def funding_type_name_def to_double_cent

lemma open_first:
  "createAccount quiet (\<lambda>k. 0) 1 Checking empty_db = Some (Inr opened, opened_db)"
  "createAccount_p2 quiet (\<lambda>k. 0) 1 Checking empty_db = Some (Inr opened, opened_db)"
proof -
  have "uniqueAccountNumber (\<lambda>k. ''0000000000'') [] 0 = Some ''0000000000''"
    by (subst uniqueAccountNumber.simps) (simp add: select_get_def)
  then show "createAccount quiet (\<lambda>k. 0) 1 Checking empty_db = Some (Inr opened, opened_db)"
    "createAccount_p2 quiet (\<lambda>k. 0) 1 Checking empty_db = Some (Inr opened, opened_db)"
    by (simp_all add: createAccount_def createAccount_p2_def generateAccountNumber_0
        select_get_def insert_account_def quiet_def next_rowid_def empty_db_def opened_def
        opened_db_def)
qed

theorem fundAccount_all_or_nothing_witness:
  "funding_applied quiet (deposit 100) opened_db
     (snd (fundAccount quiet 1 (deposit 100) opened_db)) \<and>
   snd (fundAccount (quiet\<lparr>update_fails := True\<rparr>) 1 (deposit 100) opened_db) = opened_db \<and>
   funding_applied quiet (deposit 100) opened_db
     (snd (fundAccount_p2 any_card quiet 1 (deposit 100) opened_db)) \<and>
   snd (fundAccount_p2 any_card (quiet\<lparr>update_fails := True\<rparr>) 1 (deposit 100) opened_db) =
     opened_db"
proof -
  have succeeds: "\<not> isl (fst (fundAccount quiet 1 (deposit 100) opened_db))"
    "\<not> isl (fst (fundAccount_p2 any_card quiet 1 (deposit 100) opened_db))"
    by (simp_all add: fund_eval deposit_def opened_db_def opened_def)
  have fails: "isl (fst (fundAccount (quiet\<lparr>update_fails := True\<rparr>) 1 (deposit 100) opened_db))"
    "isl (fst (fundAccount_p2 any_card (quiet\<lparr>update_fails := True\<rparr>) 1 (deposit 100) opened_db))"
    by (simp_all add: fund_eval deposit_def opened_db_def opened_def)
  from succeeds fails
    fundAccount_all_or_nothing [where e = quiet and userId = 1 and input = "deposit 100"
      and d = opened_db and validateCardNumber = any_card]
    fundAccount_all_or_nothing [where e = "quiet\<lparr>update_fails := True\<rparr>" and userId = 1
      and input = "deposit 100" and d = opened_db and validateCardNumber = any_card]
  show ?thesis
    by (auto split: prod.splits sum.splits)
qed

text \<open>
  The claim as stated fails: the increase is not always the amount. In
  \<open>server/routers/account.ts\<close>, account 1 is funded with \<open>2 ^ 53\<close> and then with 1: the
  second call succeeds and adds its row, and the balance stays \<open>2 ^ 53\<close>. In the later
  revision, where an amount is at most 10000, account 1 is funded with \<open>0.1\<close> and then
  with \<open>0.2\<close>: the balance becomes \<open>0.30000000000000004\<close>, which is not the sum of the
  two amounts.
\<close>

theorem fundAccount_increase_counterexample:
  "fundAccount quiet 1 (deposit 9007199254740992) opened_db =
     (Inr \<lparr>transaction = Some (deposit_row quiet (deposit 9007199254740992) opened_db),
            newBalance = Num 9007199254740992\<rparr>, big_db) \<and>
   fundAccount (quiet\<lparr>now := 5\<rparr>) 1 (deposit 1) big_db =
     (Inr \<lparr>transaction = Some (deposit_row (quiet\<lparr>now := 5\<rparr>) (deposit 1) big_db),
            newBalance = Num 9007199254740992\<rparr>,
      big_db\<lparr>transactions := transactions big_db @
         [deposit_row (quiet\<lparr>now := 5\<rparr>) (deposit 1) big_db]\<rparr>) \<and>
   select_balance quiet 1 big_db = Some (Num 9007199254740992) \<and>
   select_balance quiet 1
     (snd (fundAccount_p2 any_card quiet 1 (deposit tenth) opened_db)) = Some (Num tenth) \<and>
   select_balance quiet 1
     (snd (fundAccount_p2 any_card (quiet\<lparr>now := 5\<rparr>) 1 (deposit fifth)
        (snd (fundAccount_p2 any_card quiet 1 (deposit tenth) opened_db)))) =
     Some (Num (5404319552844596 / 2 ^ 54)) \<and>
   5404319552844596 / 2 ^ 54 \<noteq> tenth + fifth"
proof -
  have "fundAccount quiet 1 (deposit 9007199254740992) opened_db =
     (Inr \<lparr>transaction = Some (deposit_row quiet (deposit 9007199254740992) opened_db),
            newBalance = Num 9007199254740992\<rparr>, big_db)"
    by (simp add: fund_eval deposit_def opened_db_def opened_def deposit_row_def big_db_def
        double_eval)
  moreover have "fundAccount (quiet\<lparr>now := 5\<rparr>) 1 (deposit 1) big_db =
     (Inr \<lparr>transaction = Some (deposit_row (quiet\<lparr>now := 5\<rparr>) (deposit 1) big_db),
            newBalance = Num 9007199254740992\<rparr>,
      big_db\<lparr>transactions := transactions big_db @
         [deposit_row (quiet\<lparr>now := 5\<rparr>) (deposit 1) big_db]\<rparr>)"
    by (simp add: fund_eval deposit_def opened_db_def opened_def deposit_row_def big_db_def
        double_eval)
  moreover have "select_balance quiet 1 big_db = Some (Num 9007199254740992)"
    by (simp add: fund_eval big_db_def opened_def)
  moreover have "select_balance quiet 1
     (snd (fundAccount_p2 any_card quiet 1 (deposit tenth) opened_db)) = Some (Num tenth)"
    by (simp add: fund_eval deposit_def opened_db_def opened_def deposit_row_def tenth_def
        double_eval)
  moreover have "select_balance quiet 1
     (snd (fundAccount_p2 any_card (quiet\<lparr>now := 5\<rparr>) 1 (deposit fifth)
        (snd (fundAccount_p2 any_card quiet 1 (deposit tenth) opened_db)))) =
     Some (Num (5404319552844596 / 2 ^ 54))"
    by (simp add: fund_eval deposit_def opened_db_def opened_def deposit_row_def tenth_def
        fifth_def double_eval)
  moreover have "5404319552844596 / 2 ^ 54 \<noteq> tenth + fifth"
    by (simp add: tenth_def fifth_def)
  ultimately show ?thesis
    by (intro conjI)
qed


section \<open>Conservation\<close>

lemma funding_applied_step:
  assumes "funding_applied e input d d'" and "accountId input = i"
    and "select_get (\<lambda>a. a_id a = i) (accounts d) = Some b"
  shows "select_get (\<lambda>a. a_id a = i) (accounts d') =
           Some (b\<lparr>a_balance := a_balance b + amount input\<rparr>)"
    and "amounts_of i d' = amounts_of i d @ [amount input]"
proof -
  from assms(1) have acc: "accounts d' = map (credit (accountId input) (amount input)) (accounts d)"
    and tr: "transactions d' = transactions d @ [deposit_row e input d]"
    by (simp_all add: funding_applied_def)
  from select_get_Some [OF assms(3)] have "a_id b = i" by simp
  with acc assms(2,3) show "select_get (\<lambda>a. a_id a = i) (accounts d') =
           Some (b\<lparr>a_balance := a_balance b + amount input\<rparr>)"
    by (simp add: select_get_credit credit_def)
  from tr assms(2) show "amounts_of i d' = amounts_of i d @ [amount input]"
    by (simp add: amounts_of_def select_all_def deposit_row_def)
qed

lemma run_calls_conservation:
  fixes fund :: "env \<Rightarrow> fund_input \<Rightarrow> db \<Rightarrow> (error + fund_result) \<times> db"
  assumes effect: "\<forall>e input d res d'. fund e input d = (Inr res, d') \<longrightarrow>
      funding_applied e input d d'"
    and "run_calls (map (\<lambda>(e, input). fund e input) calls) d = (results, d')"
    and "list_all (\<lambda>r. \<not> isl r) results"
    and "list_all (\<lambda>(e, input). accountId input = i) calls"
    and "select_get (\<lambda>a. a_id a = i) (accounts d) = Some b"
  shows "select_get (\<lambda>a. a_id a = i) (accounts d') =
           Some (b\<lparr>a_balance :=
             foldl (+) (a_balance b) (map (\<lambda>(e, input). amount input) calls)\<rparr>) \<and>
         amounts_of i d' = amounts_of i d @ map (\<lambda>(e, input). amount input) calls"
  using assms(2-)
proof (induction calls arbitrary: d results b d')
  case Nil
  then show ?case by simp
next
  case (Cons call calls)
  obtain e input where call: "call = (e, input)" by (cases call)
  obtain r d1 where first: "fund e input d = (r, d1)" by (cases "fund e input d")
  obtain rs d2 where rest: "run_calls (map (\<lambda>(e, input). fund e input) calls) d1 = (rs, d2)"
    by (cases "run_calls (map (\<lambda>(e, input). fund e input) calls) d1")
  from Cons.prems(1) call first rest have res: "results = r # rs" and d': "d' = d2"
    by simp_all
  from Cons.prems(2) res obtain res0 where r: "r = Inr res0" and rs: "list_all (\<lambda>r. \<not> isl r) rs"
    by (cases r) simp_all
  from Cons.prems(3) call have tgt: "accountId input = i"
    and tgts: "list_all (\<lambda>(e, input). accountId input = i) calls"
    by simp_all
  from effect first r have app: "funding_applied e input d d1" by blast
  note step = funding_applied_step [OF app tgt Cons.prems(4)]
  from Cons.IH [OF rest rs tgts step(1)] step(2) d' call
  show ?case
    by simp
qed

lemma select_get_append:
  "select_get P (rows @ [r]) =
     (case select_get P rows of Some x \<Rightarrow> Some x | None \<Rightarrow> if P r then Some r else None)"
  by (induction rows) (simp_all add: select_get_def)

lemma createAccount_created:
  assumes "createAccount e random userId accountType d = Some (Inr a, d')"
    and "\<not> account_read_empty e"
  shows "\<exists>accountNumber. a = opened_account e userId accountNumber accountType d \<and>
           d' = d\<lparr>accounts := accounts d @ [a]\<rparr>"
proof -
  from assms(1) obtain accountNumber where
    u: "uniqueAccountNumber (\<lambda>k. generateAccountNumber (random k)) (accounts d) 0 = Some accountNumber"
    by (auto simp: createAccount_def split: option.splits)
  from uniqueAccountNumber_Some [OF u]
  have fresh: "select_get (\<lambda>a. a_accountNumber a = accountNumber) (accounts d) = None"
    by auto
  from assms u fresh
  have "a = opened_account e userId accountNumber accountType d \<and>
           d' = d\<lparr>accounts := accounts d @ [a]\<rparr>"
    by (auto simp: createAccount_def insert_account_def select_get_append opened_account_def
        split: option.splits if_splits)
  then show ?thesis ..
qed

lemma createAccount_p2_created:
  assumes "createAccount_p2 e random userId accountType d = Some (Inr a, d')"
  shows "\<exists>accountNumber. a = opened_account e userId accountNumber accountType d \<and>
           d' = d\<lparr>accounts := accounts d @ [a]\<rparr>"
proof -
  from assms(1) obtain accountNumber where
    u: "uniqueAccountNumber (\<lambda>k. generateAccountNumber_p2 (random k)) (accounts d) 0 = Some accountNumber"
    by (auto simp: createAccount_p2_def split: option.splits)
  from uniqueAccountNumber_Some [OF u]
  have fresh: "select_get (\<lambda>a. a_accountNumber a = accountNumber) (accounts d) = None"
    by auto
  from assms u fresh
  have "a = opened_account e userId accountNumber accountType d \<and>
           d' = d\<lparr>accounts := accounts d @ [a]\<rparr>"
    by (auto simp: createAccount_p2_def insert_account_def select_get_append opened_account_def
        split: option.splits if_splits)
  then show ?thesis ..
qed

lemma select_get_None_iff: "select_get P rows = None \<longleftrightarrow> (\<forall>r\<in>set rows. \<not> P r)"
  by (auto simp: select_get_def find_None_iff)

lemma opened_account_fresh:
  assumes fk: "\<forall>t\<in>set (transactions d). t_accountId t \<in> a_id ` set (accounts d)"
    and a: "a = opened_account e userId accountNumber accountType d"
    and d': "d' = d\<lparr>accounts := accounts d @ [a]\<rparr>"
  shows "select_get (\<lambda>r. a_id r = a_id a) (accounts d') = Some a"
    and "amounts_of (a_id a) d' = []"
proof -
  have id: "a_id a = next_rowid (map a_id (accounts d))"
    using a by (simp add: opened_account_def)
  have fresh: "a_id a \<notin> a_id ` set (accounts d)"
    using next_rowid_fresh [of "map a_id (accounts d)"] id by simp
  then have "\<forall>r\<in>set (accounts d). a_id r \<noteq> a_id a"
    by (metis imageI)
  then have "select_get (\<lambda>r. a_id r = a_id a) (accounts d) = None"
    by (simp add: select_get_None_iff)
  then show "select_get (\<lambda>r. a_id r = a_id a) (accounts d') = Some a"
    using d' by (simp add: select_get_append)
  have "\<forall>t\<in>set (transactions d). t_accountId t \<noteq> a_id a"
  proof
    fix t
    assume "t \<in> set (transactions d)"
    with fk have "t_accountId t \<in> a_id ` set (accounts d)" ..
    with fresh show "t_accountId t \<noteq> a_id a" by metis
  qed
  then show "amounts_of (a_id a) d' = []"
    using d' by (simp add: amounts_of_def select_all_def filter_empty_conv)
qed

lemma select_owned_from_id:
  "select_get (\<lambda>a. a_id a = i) rows = Some b \<Longrightarrow> a_userId b = u \<Longrightarrow>
     select_get (\<lambda>a. a_id a = i \<and> a_userId a = u) rows = Some b"
  by (induction rows) (auto simp: select_get_def split: if_splits)


lemma mset_insert_desc: "mset (insert_desc key x ys) = add_mset x (mset ys)"
  by (induction ys) simp_all

lemma mset_orderBy_desc_aux:
  "mset (foldl (\<lambda>sorted r. insert_desc key r sorted) acc rows) = mset acc + mset rows"
  by (induction rows arbitrary: acc) (simp_all add: mset_insert_desc)

lemma mset_orderBy_desc: "mset (orderBy_desc key rows) = mset rows"
  by (simp add: orderBy_desc_def mset_orderBy_desc_aux)

lemma sorted_insert_desc:
  "sorted_wrt (\<lambda>x y. key y \<le> key x) ys \<Longrightarrow>
     sorted_wrt (\<lambda>x y. key y \<le> key x) (insert_desc key x ys)"
proof (induction ys)
  case Nil
  then show ?case by simp
next
  case (Cons y ys)
  have "set (insert_desc key x ys) = insert x (set ys)"
    using mset_insert_desc [of key x ys] by (metis set_mset_add_mset_insert set_mset_mset)
  with Cons show ?case by auto
qed

lemma sorted_orderBy_desc_aux:
  "sorted_wrt (\<lambda>x y. key y \<le> key x) acc \<Longrightarrow>
     sorted_wrt (\<lambda>x y. key y \<le> key x) (foldl (\<lambda>sorted r. insert_desc key r sorted) acc rows)"
  by (induction rows arbitrary: acc) (simp_all add: sorted_insert_desc)

lemma sorted_orderBy_desc: "sorted_wrt (\<lambda>x y. key y \<le> key x) (orderBy_desc key rows)"
  by (simp add: orderBy_desc_def sorted_orderBy_desc_aux)

lemma getTransactions_rows:
  assumes "select_get (\<lambda>a. a_id a = i) (accounts d) = Some b" and "a_userId b = u"
  shows "\<exists>rows. getTransactions u i d = Inr rows \<and>
           map (\<lambda>(t, ty). t_amount t) rows = amounts_of i d"
  using select_owned_from_id [OF assms]
  by (simp add: getTransactions_def amounts_of_def comp_def)

lemma getTransactions_p2_rows:
  assumes "select_get (\<lambda>a. a_id a = i) (accounts d) = Some b" and "a_userId b = u"
  shows "\<exists>rows. getTransactions_p2 u i d = Inr rows \<and>
           mset (map (\<lambda>(t, ty). t_amount t) rows) = mset (amounts_of i d)"
proof -
  let ?sorted = "orderBy_desc t_createdAt
      (select_all (\<lambda>t. t_accountId t = i) (transactions d))"
  let ?rows = "map (\<lambda>t. (t, Some (a_accountType b))) ?sorted"
  have amounts: "map (\<lambda>(t, ty). t_amount t) ?rows = map t_amount ?sorted"
    by (simp add: comp_def)
  have "mset (map t_amount ?sorted) = mset (amounts_of i d)"
    by (simp add: amounts_of_def mset_orderBy_desc)
  then have "mset (map (\<lambda>(t, ty). t_amount t) ?rows) = mset (amounts_of i d)"
    by (simp only: amounts)
  moreover have "getTransactions_p2 u i d = Inr ?rows"
    using select_owned_from_id [OF assms] by (simp add: getTransactions_p2_def)
  ultimately show ?thesis by blast
qed

lemma conservation_aux:
  fixes fund :: "env \<Rightarrow> fund_input \<Rightarrow> db \<Rightarrow> (error + fund_result) \<times> db"
  assumes effect: "\<forall>e input d res d'. fund e input d = (Inr res, d') \<longrightarrow>
      funding_applied e input d d'"
    and fk: "\<forall>t\<in>set (transactions d0). t_accountId t \<in> a_id ` set (accounts d0)"
    and a: "a = opened_account e0 userId accountNumber accountType d0"
    and d1: "d1 = d0\<lparr>accounts := accounts d0 @ [a]\<rparr>"
    and run: "run_calls (map (\<lambda>(e, input). fund e input) calls) d1 = (results, dN)"
    and ok: "list_all (\<lambda>r. \<not> isl r) results"
    and target: "list_all (\<lambda>(e, input). accountId input = a_id a) calls"
  shows "select_balance quiet (a_id a) dN =
           Some (added_up (map (\<lambda>(e, input). amount input) calls))"
    and "\<exists>b. select_get (\<lambda>r. a_id r = a_id a) (accounts dN) = Some b \<and> a_userId b = userId"
    and "amounts_of (a_id a) dN = map (\<lambda>(e, input). amount input) calls"
proof -
  note start = opened_account_fresh [OF fk a d1]
  from run_calls_conservation [of fund, OF effect run ok target start(1)]
  have sel: "select_get (\<lambda>r. a_id r = a_id a) (accounts dN) =
      Some (a\<lparr>a_balance :=
        foldl (+) (a_balance a) (map (\<lambda>(e, input). amount input) calls)\<rparr>)"
    and am: "amounts_of (a_id a) dN = amounts_of (a_id a) d1 @ map (\<lambda>(e, input). amount input) calls"
    by simp_all
  have zero: "a_balance a = Num 0" and owner: "a_userId a = userId"
    using a by (simp_all add: opened_account_def)
  from sel zero show "select_balance quiet (a_id a) dN =
           Some (added_up (map (\<lambda>(e, input). amount input) calls))"
    by (simp add: select_balance_def quiet_def added_up_def)
  from sel owner show "\<exists>b. select_get (\<lambda>r. a_id r = a_id a) (accounts dN) = Some b \<and>
      a_userId b = userId"
    by simp
  from am start(2) show "amounts_of (a_id a) dN = map (\<lambda>(e, input). amount input) calls"
    by simp
qed

text \<open>
  C2. An account is opened by \<open>createAccount\<close> on a store that respects the foreign key
  of \<open>transactions\<close>, and then funded by a sequence of calls, all successful and all
  against this account, with nothing else in between. Then the balance read from the
  store is the total of the amounts: each added in its turn to the balance that the
  calls before it have left, every sum rounded to a double. \<open>getTransactions\<close> returns
  as many rows as there were calls, and their amounts are the amounts of the calls: in
  the order of the calls in \<open>server/routers/account.ts\<close>, so that their total is the
  balance, and in some order in the later revision. In \<open>server/routers/account.ts\<close>
  the account returned by \<open>createAccount\<close> is the stored one when its read-back found
  the row, which is assumed there.
\<close>

theorem conservation:
  assumes fk: "\<forall>t\<in>set (transactions d). t_accountId t \<in> a_id ` set (accounts d)"
  shows
  "(createAccount e_a random userId accountType d = Some (Inr a, d_a) \<and>
    \<not> account_read_empty e_a \<and>
    run_calls (map (\<lambda>(e, input). fundAccount e userId input) calls) d_a = (results, d_n) \<and>
    list_all (\<lambda>r. \<not> isl r) results \<and>
    list_all (\<lambda>(e, input). accountId input = a_id a) calls \<longrightarrow>
      select_balance quiet (a_id a) d_n =
        Some (added_up (map (\<lambda>(e, input). amount input) calls)) \<and>
      (\<exists>rows. getTransactions userId (a_id a) d_n = Inr rows \<and>
         length rows = length calls \<and>
         map (\<lambda>(t, ty). t_amount t) rows = map (\<lambda>(e, input). amount input) calls \<and>
         select_balance quiet (a_id a) d_n = Some (added_up (map (\<lambda>(t, ty). t_amount t) rows)))) \<and>
   (createAccount_p2 e_a random' userId accountType d = Some (Inr a', d_a') \<and>
    run_calls (map (\<lambda>(e, input). fundAccount_p2 validateCardNumber e userId input) calls) d_a' =
      (results', d_n') \<and>
    list_all (\<lambda>r. \<not> isl r) results' \<and>
    list_all (\<lambda>(e, input). accountId input = a_id a') calls \<longrightarrow>
      select_balance quiet (a_id a') d_n' =
        Some (added_up (map (\<lambda>(e, input). amount input) calls)) \<and>
      (\<exists>rows. getTransactions_p2 userId (a_id a') d_n' = Inr rows \<and>
         length rows = length calls \<and>
         mset (map (\<lambda>(t, ty). t_amount t) rows) =
           mset (map (\<lambda>(e, input). amount input) calls)))"
proof (intro conjI impI; elim conjE)
  assume created: "createAccount e_a random userId accountType d = Some (Inr a, d_a)"
    and read: "\<not> account_read_empty e_a"
    and run: "run_calls (map (\<lambda>(e, input). fundAccount e userId input) calls) d_a = (results, d_n)"
    and ok: "list_all (\<lambda>r. \<not> isl r) results"
    and target: "list_all (\<lambda>(e, input). accountId input = a_id a) calls"
  from createAccount_created [OF created read] obtain accountNumber where
    a: "a = opened_account e_a userId accountNumber accountType d"
    and d_a: "d_a = d\<lparr>accounts := accounts d @ [a]\<rparr>" by blast
  have effect: "\<forall>e input d res d'. fundAccount e userId input d = (Inr res, d') \<longrightarrow>
      funding_applied e input d d'"
    by (blast intro: fundAccount_Inr)
  note c = conservation_aux [where fund = "\<lambda>e. fundAccount e userId", OF effect fk a d_a run ok
      target]
  show "select_balance quiet (a_id a) d_n =
        Some (added_up (map (\<lambda>(e, input). amount input) calls))"
    by (rule c(1))
  from c(2) obtain b where b: "select_get (\<lambda>r. a_id r = a_id a) (accounts d_n) = Some b"
    "a_userId b = userId" by blast
  from getTransactions_rows [OF b] obtain rows where
    rows: "getTransactions userId (a_id a) d_n = Inr rows"
      "map (\<lambda>(t, ty). t_amount t) rows = amounts_of (a_id a) d_n" by blast
  from rows(2) c(3) have m: "map (\<lambda>(t, ty). t_amount t) rows = map (\<lambda>(e, input). amount input) calls"
    by simp
  from arg_cong [OF m, of length] have "length rows = length calls" by simp
  moreover from c(1) m have "select_balance quiet (a_id a) d_n =
      Some (added_up (map (\<lambda>(t, ty). t_amount t) rows))"
    by simp
  ultimately show "\<exists>rows. getTransactions userId (a_id a) d_n = Inr rows \<and>
         length rows = length calls \<and>
         map (\<lambda>(t, ty). t_amount t) rows = map (\<lambda>(e, input). amount input) calls \<and>
         select_balance quiet (a_id a) d_n = Some (added_up (map (\<lambda>(t, ty). t_amount t) rows))"
    using rows(1) m by blast
next
  assume created: "createAccount_p2 e_a random' userId accountType d = Some (Inr a', d_a')"
    and run: "run_calls (map (\<lambda>(e, input). fundAccount_p2 validateCardNumber e userId input) calls) d_a' =
      (results', d_n')"
    and ok: "list_all (\<lambda>r. \<not> isl r) results'"
    and target: "list_all (\<lambda>(e, input). accountId input = a_id a') calls"
  from createAccount_p2_created [OF created] obtain accountNumber where
    a: "a' = opened_account e_a userId accountNumber accountType d"
    and d_a: "d_a' = d\<lparr>accounts := accounts d @ [a']\<rparr>" by blast
  have effect: "\<forall>e input d res d'.
      fundAccount_p2 validateCardNumber e userId input d = (Inr res, d') \<longrightarrow>
      funding_applied e input d d'"
    by (blast intro: fundAccount_p2_Inr)
  note c = conservation_aux [where fund = "\<lambda>e. fundAccount_p2 validateCardNumber e userId",
      OF effect fk a d_a run ok target]
  show "select_balance quiet (a_id a') d_n' =
        Some (added_up (map (\<lambda>(e, input). amount input) calls))"
    by (rule c(1))
  from c(2) obtain b where b: "select_get (\<lambda>r. a_id r = a_id a') (accounts d_n') = Some b"
    "a_userId b = userId" by blast
  from getTransactions_p2_rows [OF b] obtain rows where
    rows: "getTransactions_p2 userId (a_id a') d_n' = Inr rows"
      "mset (map (\<lambda>(t, ty). t_amount t) rows) = mset (amounts_of (a_id a') d_n')" by blast
  from rows(2) c(3) have m: "mset (map (\<lambda>(t, ty). t_amount t) rows) =
      mset (map (\<lambda>(e, input). amount input) calls)"
    by simp
  from arg_cong [OF m, of size] have len: "length rows = length calls" by simp
  with rows(1) m show "\<exists>rows. getTransactions_p2 userId (a_id a') d_n' = Inr rows \<and>
         length rows = length calls \<and>
         mset (map (\<lambda>(t, ty). t_amount t) rows) =
           mset (map (\<lambda>(e, input). amount input) calls)"
    by blast
qed

lemma two_deposits_run:
  "run_calls (map (\<lambda>(e, input). fundAccount e 1 input) two_deposits) opened_db =
     (two_results, funded_db)"
  "run_calls (map (\<lambda>(e, input). fundAccount_p2 any_card e 1 input) two_deposits) opened_db =
     (two_results, funded_db)"
  by (simp_all add: two_deposits_def fund_eval deposit_def opened_db_def opened_def
      deposit_row_def funded_db_def two_results_def double_eval)

theorem conservation_witness:
  "transactions empty_db = [] \<and>
   createAccount quiet (\<lambda>k. 0) 1 Checking empty_db = Some (Inr opened, opened_db) \<and>
   createAccount_p2 quiet (\<lambda>k. 0) 1 Checking empty_db = Some (Inr opened, opened_db) \<and>
   snd (run_calls (map (\<lambda>(e, input). fundAccount e 1 input) two_deposits) opened_db) =
     funded_db \<and>
   snd (run_calls (map (\<lambda>(e, input). fundAccount_p2 any_card e 1 input) two_deposits) opened_db) =
     funded_db \<and>
   select_balance quiet 1 funded_db = Some (Num 150) \<and>
   (\<exists>rows. getTransactions 1 1 funded_db = Inr rows \<and> length rows = 2 \<and>
      map (\<lambda>(t, ty). t_amount t) rows = [Num 100, Num 50]) \<and>
   (\<exists>rows. getTransactions_p2 1 1 funded_db = Inr rows \<and> length rows = 2 \<and>
      mset (map (\<lambda>(t, ty). t_amount t) rows) = mset [Num 100, Num 50])"
proof -
  have fk: "\<forall>t\<in>set (transactions empty_db). t_accountId t \<in> a_id ` set (accounts empty_db)"
    by (simp add: empty_db_def)
  have id: "a_id opened = 1"
    by (simp add: opened_def)
  have amounts: "map (\<lambda>(e, input). amount input) two_deposits = [Num 100, Num 50]"
    by (simp add: two_deposits_def deposit_def)
  have sum: "added_up [Num 100, Num 50] = Num 150"
    by (simp add: added_up_def double_eval)
  have target: "list_all (\<lambda>(e, input). accountId input = 1) two_deposits"
    by (simp add: two_deposits_def deposit_def)
  have quiet: "\<not> account_read_empty quiet"
    by (simp add: quiet_def)
  have ok: "list_all (\<lambda>r. \<not> isl r) two_results"
    by (simp add: two_results_def)
  have len: "length two_deposits = 2"
    by (simp add: two_deposits_def)
  note c = conservation [OF fk, where e_a = quiet and random = "\<lambda>k. 0"
      and random' = "\<lambda>k. 0" and userId = 1 and accountType = Checking and a = opened
      and a' = opened and d_a = opened_db and d_a' = opened_db and calls = two_deposits
      and d_n = funded_db and d_n' = funded_db and validateCardNumber = any_card
      and results = two_results and results' = two_results, unfolded id amounts sum len]
  have first: "select_balance quiet 1 funded_db = Some (Num 150) \<and>
   (\<exists>rows. getTransactions 1 1 funded_db = Inr rows \<and> length rows = 2 \<and>
      map (\<lambda>(t, ty). t_amount t) rows = [Num 100, Num 50] \<and>
      select_balance quiet 1 funded_db = Some (added_up (map (\<lambda>(t, ty). t_amount t) rows)))"
    by (rule c [THEN conjunct1, THEN mp])
      (intro conjI open_first(1) quiet two_deposits_run(1) ok target)
  have second: "select_balance quiet 1 funded_db = Some (Num 150) \<and>
   (\<exists>rows. getTransactions_p2 1 1 funded_db = Inr rows \<and> length rows = 2 \<and>
      mset (map (\<lambda>(t, ty). t_amount t) rows) = mset [Num 100, Num 50])"
    by (rule c [THEN conjunct2, THEN mp])
      (intro conjI open_first(2) two_deposits_run(2) ok target)
  from first [THEN conjunct2] obtain rows where
    "getTransactions 1 1 funded_db = Inr rows \<and> length rows = 2 \<and>
      map (\<lambda>(t, ty). t_amount t) rows = [Num 100, Num 50] \<and>
      select_balance quiet 1 funded_db = Some (added_up (map (\<lambda>(t, ty). t_amount t) rows))" ..
  then have "getTransactions 1 1 funded_db = Inr rows \<and> length rows = 2 \<and>
      map (\<lambda>(t, ty). t_amount t) rows = [Num 100, Num 50]"
    by (elim conjE) (intro conjI, assumption+)
  then have rows: "\<exists>rows. getTransactions 1 1 funded_db = Inr rows \<and> length rows = 2 \<and>
      map (\<lambda>(t, ty). t_amount t) rows = [Num 100, Num 50]" ..
  from first [THEN conjunct1] second [THEN conjunct2] rows open_first two_deposits_run
  show ?thesis
    by (simp add: empty_db_def)
qed

text \<open>
  The claim as stated fails, in both revisions. Account 1 is funded with \<open>0.1\<close>, \<open>0.2\<close>
  and \<open>0.3\<close>, and every call succeeds. The balance is then \<open>0.6000000000000001\<close>, which
  is not the sum of the three amounts. In the later revision \<open>getTransactions\<close> returns
  the rows latest first, and their amounts added up in that order give \<open>0.6\<close>, which is
  not the balance.
\<close>

theorem conservation_counterexample:
  "list_all (\<lambda>r. \<not> isl r)
     (fst (run_calls (map (\<lambda>(e, input). fundAccount e 1 input) three_deposits) opened_db)) \<and>
   snd (run_calls (map (\<lambda>(e, input). fundAccount e 1 input) three_deposits) opened_db) =
     three_db \<and>
   list_all (\<lambda>r. \<not> isl r)
     (fst (run_calls (map (\<lambda>(e, input). fundAccount_p2 any_card e 1 input) three_deposits)
        opened_db)) \<and>
   snd (run_calls (map (\<lambda>(e, input). fundAccount_p2 any_card e 1 input) three_deposits)
     opened_db) = three_db \<and>
   select_balance quiet 1 three_db = Some (Num (5404319552844596 / 2 ^ 53)) \<and>
   5404319552844596 / 2 ^ 53 \<noteq> tenth + fifth + three_tenths \<and>
   map (\<lambda>(t, ty). t_amount t) (projr (getTransactions_p2 1 1 three_db)) =
     [Num three_tenths, Num fifth, Num tenth] \<and>
   added_up [Num three_tenths, Num fifth, Num tenth] = Num (5404319552844595 / 2 ^ 53) \<and>
   Num (5404319552844595 / 2 ^ 53) \<noteq> Num (5404319552844596 / 2 ^ 53)"
proof -
  note eval = three_deposits_def fund_eval deposit_def opened_db_def opened_def
      deposit_row_def three_db_def tenth_def fifth_def three_tenths_def double_eval
  have "list_all (\<lambda>r. \<not> isl r)
     (fst (run_calls (map (\<lambda>(e, input). fundAccount e 1 input) three_deposits) opened_db))"
    by (simp add: eval)
  moreover have "snd (run_calls (map (\<lambda>(e, input). fundAccount e 1 input) three_deposits)
      opened_db) = three_db"
    by (simp add: eval)
  moreover have "list_all (\<lambda>r. \<not> isl r)
     (fst (run_calls (map (\<lambda>(e, input). fundAccount_p2 any_card e 1 input) three_deposits)
        opened_db))"
    by (simp add: eval)
  moreover have "snd (run_calls (map (\<lambda>(e, input). fundAccount_p2 any_card e 1 input)
      three_deposits) opened_db) = three_db"
    by (simp add: eval)
  moreover have "select_balance quiet 1 three_db = Some (Num (5404319552844596 / 2 ^ 53))"
    by (simp add: fund_eval three_db_def opened_def)
  moreover have "5404319552844596 / 2 ^ 53 \<noteq> tenth + fifth + three_tenths"
    by (simp add: tenth_def fifth_def three_tenths_def)
  moreover have "map (\<lambda>(t, ty). t_amount t) (projr (getTransactions_p2 1 1 three_db)) =
     [Num three_tenths, Num fifth, Num tenth]"
    by (simp add: getTransactions_p2_def fund_eval three_db_def opened_def orderBy_desc_def
        deposit_row_def deposit_def)
  moreover have "added_up [Num three_tenths, Num fifth, Num tenth] =
      Num (5404319552844595 / 2 ^ 53)"
    by (simp add: added_up_def tenth_def fifth_def three_tenths_def double_eval)
  moreover have "Num (5404319552844595 / 2 ^ 53) \<noteq> Num (5404319552844596 / 2 ^ 53)"
    by simp
  ultimately show ?thesis
    by (intro conjI)
qed


section \<open>The balance returned by a funding\<close>

text \<open>
  When the read after the update finds the row, the balance returned is the one in the
  store.
\<close>

lemma newBalance_read_back:
  assumes "\<not> account_read_empty e"
    and "fundAccount e userId input d = (Inr res, d') \<or>
         fundAccount_p2 validateCardNumber e userId input d = (Inr res, d')"
  shows "select_balance e (accountId input) d' = Some (newBalance res)"
proof -
  have *: "select_balance e (accountId input) d' = Some (newBalance res)"
    if "rawDb_transaction (fund_transaction e input account) d = (Inr res, d')"
      and "select_get (\<lambda>a. a_id a = accountId input \<and> a_userId a = userId) (accounts d) =
        Some account" for account
  proof -
    from that(1) have p: "fund_transaction e input account d = Inr (res, d')"
      by (auto simp: rawDb_transaction_def split: sum.splits)
    note eff = fund_transaction_Inr [OF p]
    from select_get_weaken [OF that(2)] obtain b where
      b: "select_get (\<lambda>a. a_id a = accountId input) (accounts d) = Some b" ..
    from b eff(1) select_get_Some [OF b]
    have "select_balance e (accountId input) d' = Some (a_balance b + amount input)"
      using assms(1) by (simp add: select_balance_def select_get_credit credit_def)
    moreover from p b eff(1) select_get_Some [OF b] assms(1)
    have "newBalance res = a_balance b + amount input"
      by (auto simp: fund_transaction_def insert_transaction_def update_balance_def Let_def
          select_balance_def select_get_credit [unfolded credit_def] credit_def
          split: if_splits)
    ultimately show ?thesis by simp
  qed
  from assms(2) show ?thesis
  proof
    assume "fundAccount e userId input d = (Inr res, d')"
    then show ?thesis
      by (auto simp: fundAccount_def fundAccount_before_await_def fundAccount_input_def
          fundAccount_after_await_def split: sum.splits if_splits option.splits intro: *)
  next
    assume "fundAccount_p2 validateCardNumber e userId input d = (Inr res, d')"
    then show ?thesis
      by (auto simp: fundAccount_p2_def fundAccount_before_await_p2_def fundAccount_input_p2_def
          fundAccount_after_await_p2_def
          split: sum.splits if_splits option.splits funding_type.splits prod.splits intro: *)
  qed
qed

text \<open>
  C4 on both revisions. Account 1 holds 0 and is funded with 100 while the read of the
  balance after the update finds no row: the call does not fail, it returns
  \<open>account.balance + amount\<close>, computed from the row read before the transaction.
\<close>

theorem fundAccount_balance_fallback:
  "fundAccount (quiet\<lparr>account_read_empty := True\<rparr>) 1 (deposit 100) opened_db =
     (Inr \<lparr>transaction = Some (deposit_row quiet (deposit 100) opened_db),
            newBalance = a_balance opened + Num 100\<rparr>,
      \<lparr>accounts = [opened\<lparr>a_balance := Num 100\<rparr>],
        transactions = [deposit_row quiet (deposit 100) opened_db]\<rparr>) \<and>
   fundAccount_p2 any_card (quiet\<lparr>account_read_empty := True\<rparr>) 1 (deposit 100) opened_db =
     (Inr \<lparr>transaction = Some (deposit_row quiet (deposit 100) opened_db),
            newBalance = a_balance opened + Num 100\<rparr>,
      \<lparr>accounts = [opened\<lparr>a_balance := Num 100\<rparr>],
        transactions = [deposit_row quiet (deposit 100) opened_db]\<rparr>)"
  by (simp add: fund_eval deposit_def opened_db_def opened_def deposit_row_def
      double_eval)

text \<open>
  The value computed in memory need not be the stored one: resumed with the row it read
  when the balance was 0, on a store where two other fundings have since brought the
  balance to 150, the handler stores 250 and returns 100.
\<close>

lemma stale_balance_returned:
  "fundAccount_after_await (quiet\<lparr>account_read_empty := True\<rparr>) (deposit 100) (Some opened)
     funded_db =
     (Inr \<lparr>transaction =
             Some ((deposit_row quiet (deposit 100) opened_db)\<lparr>t_id := 3\<rparr>),
            newBalance = Num 100\<rparr>,
      \<lparr>accounts = [opened\<lparr>a_balance := Num 250\<rparr>],
        transactions = transactions funded_db @
          [(deposit_row quiet (deposit 100) opened_db)\<lparr>t_id := 3\<rparr>]\<rparr>)"
  by (simp add: fund_eval deposit_def opened_db_def opened_def deposit_row_def funded_db_def
      double_eval)


section \<open>The order of the history\<close>

lemma getTransactions_p2_ordered:
  assumes "getTransactions_p2 userId account_id d = Inr rows"
  shows "sorted_wrt (\<lambda>x y. t_createdAt (fst y) \<le> t_createdAt (fst x)) rows"
    and "mset (map fst rows) = mset (select_all (\<lambda>t. t_accountId t = account_id) (transactions d))"
proof -
  from assms obtain account :: account_row where
    rows: "rows = map (\<lambda>t. (t, Some (a_accountType account)))
      (orderBy_desc t_createdAt (select_all (\<lambda>t. t_accountId t = account_id) (transactions d)))"
    by (auto simp: getTransactions_p2_def split: option.splits)
  show "sorted_wrt (\<lambda>x y. t_createdAt (fst y) \<le> t_createdAt (fst x)) rows"
    using sorted_orderBy_desc [of t_createdAt]
    by (simp add: rows sorted_wrt_map)
  show "mset (map fst rows) = mset (select_all (\<lambda>t. t_accountId t = account_id) (transactions d))"
    by (simp add: rows comp_def mset_orderBy_desc)
qed

lemma getTransactions_p2_sample:
  "getTransactions_p2 1 1 funded_db =
     Inr [((deposit_row (quiet\<lparr>now := 5\<rparr>) (deposit 50) opened_db)\<lparr>t_id := 2\<rparr>,
           Some Checking),
          (deposit_row quiet (deposit 100) opened_db, Some Checking)]"
  by (simp add: getTransactions_p2_def funded_db_def select_get_def select_all_def opened_def
      deposit_row_def deposit_def quiet_def orderBy_desc_def)

text \<open>
  C6 on \<open>server/routers/account.ts\<close>. The query of \<open>getTransactions\<close> has no
  \<open>ORDER BY\<close>: for the account funded at instants 0 and 5 it returns the rows in table
  order, the oldest first, where the later revision returns the most recent first
  (\<open>getTransactions_p2_sample\<close>, \<open>getTransactions_p2_ordered\<close>).
\<close>

theorem getTransactions_table_order:
  "getTransactions 1 1 funded_db =
     Inr [(deposit_row quiet (deposit 100) opened_db, Some Checking),
          ((deposit_row (quiet\<lparr>now := 5\<rparr>) (deposit 50) opened_db)\<lparr>t_id := 2\<rparr>,
           Some Checking)] \<and>
   t_createdAt (deposit_row quiet (deposit 100) opened_db) = 0 \<and>
   t_createdAt ((deposit_row (quiet\<lparr>now := 5\<rparr>) (deposit 50) opened_db)\<lparr>t_id := 2\<rparr>) = 5"
  by (simp add: getTransactions_def funded_db_def select_get_def select_all_def opened_def
      deposit_row_def deposit_def quiet_def)


section \<open>The preconditions of a funding\<close>

text \<open>
  What each revision checks: a refused amount, a missing account and an inactive account
  are reported as \<open>BAD_REQUEST\<close>, \<open>NOT_FOUND\<close> and \<open>BAD_REQUEST\<close>, and a call succeeds
  only on an account of the caller that is active. The later revision accepts finite
  positive amounts only; \<open>server/routers/account.ts\<close> also lets \<open>Infinity\<close> through.
\<close>

lemma fundAccount_input_p2_amount:
  "fundAccount_input_p2 input = Inr parsed \<Longrightarrow> parsed = input \<and> positive_finite (amount input)"
  by (cases "amount input")
    (auto simp: fundAccount_input_p2_def positive_finite_def isNaN_def
      split: if_splits funding_type.splits option.splits)

lemma fundAccount_input_p2_rejects:
  "\<not> positive_finite (amount input) \<Longrightarrow>
     \<exists>msg. fundAccount_input_p2 input = Inl (TRPCError BAD_REQUEST msg)"
  by (cases "amount input")
    (auto simp: fundAccount_input_p2_def positive_finite_def isNaN_def)

lemma fundAccount_p2_preconditions:
  "\<not> positive_finite (amount input) \<Longrightarrow>
     \<exists>msg. fundAccount_p2 v e userId input d = (Inl (TRPCError BAD_REQUEST msg), d)"
  "fundAccount_input_p2 input = Inr input \<Longrightarrow>
     select_get (\<lambda>a. a_id a = accountId input \<and> a_userId a = userId) (accounts d) = None \<Longrightarrow>
     fundAccount_p2 v e userId input d = (Inl (TRPCError NOT_FOUND ''Account not found''), d)"
  "fundAccount_input_p2 input = Inr input \<Longrightarrow>
     select_get (\<lambda>a. a_id a = accountId input \<and> a_userId a = userId) (accounts d) =
       Some account \<Longrightarrow> a_status account \<noteq> ''active'' \<Longrightarrow>
     fundAccount_p2 v e userId input d =
       (Inl (TRPCError BAD_REQUEST ''Account is not active''), d)"
  "fundAccount_p2 v e userId input d = (Inr res, d') \<Longrightarrow>
     positive_finite (amount input) \<and>
     (\<exists>account. select_get (\<lambda>a. a_id a = accountId input \<and> a_userId a = userId)
        (accounts d) = Some account \<and> a_status account = ''active'')"
proof -
  show "\<exists>msg. fundAccount_p2 v e userId input d = (Inl (TRPCError BAD_REQUEST msg), d)"
    if "\<not> positive_finite (amount input)"
    using fundAccount_input_p2_rejects [OF that]
    by (auto simp: fundAccount_p2_def fundAccount_before_await_p2_def)
  have checks: "\<not> (js_less_eq (amount input) (Num 0) \<or> isNaN (amount input))"
    "\<not> js_less (amount input) (to_double (1 / 100))"
    if "fundAccount_input_p2 input = Inr input"
    using that by (auto simp: fundAccount_input_p2_def split: if_splits)
  show "fundAccount_p2 v e userId input d = (Inl (TRPCError NOT_FOUND ''Account not found''), d)"
    if "fundAccount_input_p2 input = Inr input"
      and "select_get (\<lambda>a. a_id a = accountId input \<and> a_userId a = userId) (accounts d) = None"
    using that checks [OF that(1)]
    by (simp add: fundAccount_p2_def fundAccount_before_await_p2_def
        fundAccount_after_await_p2_def)
  show "fundAccount_p2 v e userId input d =
       (Inl (TRPCError BAD_REQUEST ''Account is not active''), d)"
    if "fundAccount_input_p2 input = Inr input"
      and "select_get (\<lambda>a. a_id a = accountId input \<and> a_userId a = userId) (accounts d) =
       Some account" and "a_status account \<noteq> ''active''"
    using that checks [OF that(1)]
    by (simp add: fundAccount_p2_def fundAccount_before_await_p2_def
        fundAccount_after_await_p2_def)
  show "positive_finite (amount input) \<and>
     (\<exists>account. select_get (\<lambda>a. a_id a = accountId input \<and> a_userId a = userId)
        (accounts d) = Some account \<and> a_status account = ''active'')"
    if run: "fundAccount_p2 v e userId input d = (Inr res, d')"
  proof -
    from run obtain parsed where parsed: "fundAccount_input_p2 input = Inr parsed"
      by (auto simp: fundAccount_p2_def fundAccount_before_await_p2_def split: sum.splits)
    note p = fundAccount_input_p2_amount [OF parsed]
    from run parsed p show ?thesis
      by (auto simp: fundAccount_p2_def fundAccount_before_await_p2_def
          fundAccount_after_await_p2_def split: sum.splits if_splits option.splits)
  qed
qed

lemma fundAccount_preconditions:
  "isNaN (amount input) \<or> js_less_eq (amount input) (Num 0) \<Longrightarrow>
     \<exists>msg. fundAccount e userId input d = (Inl (TRPCError BAD_REQUEST msg), d)"
  "fundAccount_input input = Inr input \<Longrightarrow>
     select_get (\<lambda>a. a_id a = accountId input \<and> a_userId a = userId) (accounts d) = None \<Longrightarrow>
     fundAccount e userId input d = (Inl (TRPCError NOT_FOUND ''Account not found''), d)"
  "fundAccount_input input = Inr input \<Longrightarrow>
     select_get (\<lambda>a. a_id a = accountId input \<and> a_userId a = userId) (accounts d) =
       Some account \<Longrightarrow> a_status account \<noteq> ''active'' \<Longrightarrow>
     fundAccount e userId input d = (Inl (TRPCError BAD_REQUEST ''Account is not active''), d)"
  "fundAccount e userId input d = (Inr res, d') \<Longrightarrow>
     (positive_finite (amount input) \<or> amount input = PosInfinity) \<and>
     (\<exists>account. select_get (\<lambda>a. a_id a = accountId input \<and> a_userId a = userId)
        (accounts d) = Some account \<and> a_status account = ''active'')"
proof -
  show "\<exists>msg. fundAccount e userId input d = (Inl (TRPCError BAD_REQUEST msg), d)"
    if "isNaN (amount input) \<or> js_less_eq (amount input) (Num 0)"
    using that
    by (auto simp: fundAccount_def fundAccount_before_await_def fundAccount_input_def)
  show "fundAccount e userId input d = (Inl (TRPCError NOT_FOUND ''Account not found''), d)"
    if "fundAccount_input input = Inr input"
      and "select_get (\<lambda>a. a_id a = accountId input \<and> a_userId a = userId) (accounts d) = None"
    using that
    by (simp add: fundAccount_def fundAccount_before_await_def fundAccount_after_await_def)
  show "fundAccount e userId input d = (Inl (TRPCError BAD_REQUEST ''Account is not active''), d)"
    if "fundAccount_input input = Inr input"
      and "select_get (\<lambda>a. a_id a = accountId input \<and> a_userId a = userId) (accounts d) =
       Some account" and "a_status account \<noteq> ''active''"
    using that
    by (simp add: fundAccount_def fundAccount_before_await_def fundAccount_after_await_def)
  show "(positive_finite (amount input) \<or> amount input = PosInfinity) \<and>
     (\<exists>account. select_get (\<lambda>a. a_id a = accountId input \<and> a_userId a = userId)
        (accounts d) = Some account \<and> a_status account = ''active'')"
    if run: "fundAccount e userId input d = (Inr res, d')"
  proof -
    from run have parsed: "fundAccount_input input = Inr input"
      by (auto simp: fundAccount_def fundAccount_before_await_def fundAccount_input_def
          split: sum.splits if_splits)
    then have "positive_finite (amount input) \<or> amount input = PosInfinity"
      by (cases "amount input")
        (auto simp: fundAccount_input_def positive_finite_def isNaN_def split: if_splits)
    with run parsed show ?thesis
      by (auto simp: fundAccount_def fundAccount_before_await_def
          fundAccount_after_await_def split: sum.splits if_splits option.splits)
  qed
qed

text \<open>
  C7 on \<open>server/routers/account.ts\<close>. The only check of the amount is
  \<open>z.number().positive()\<close>, which \<open>Infinity\<close> passes, and the handler does not look at
  the amount again: funding account 1 with \<open>Infinity\<close> succeeds and stores an infinite
  balance.
\<close>

theorem fundAccount_accepts_infinite_amount:
  "fundAccount quiet 1 ((deposit 100)\<lparr>amount := PosInfinity\<rparr>) opened_db =
     (Inr \<lparr>transaction =
             Some ((deposit_row quiet (deposit 100) opened_db)\<lparr>t_amount := PosInfinity\<rparr>),
            newBalance = PosInfinity\<rparr>,
      \<lparr>accounts = [opened\<lparr>a_balance := PosInfinity\<rparr>],
        transactions =
          [(deposit_row quiet (deposit 100) opened_db)\<lparr>t_amount := PosInfinity\<rparr>]\<rparr>)"
  by (simp add: fund_eval deposit_def opened_db_def opened_def deposit_row_def)


section \<open>The ownership guard\<close>

lemma select_owned_other:
  assumes "distinct (map a_id rows)"
    and "select_get (\<lambda>a. a_id a = i) rows = Some other" and "a_userId other \<noteq> u"
  shows "select_get (\<lambda>a. a_id a = i \<and> a_userId a = u) rows = None"
proof -
  have "\<not> (a_id r = i \<and> a_userId r = u)" if r: "r \<in> set rows" for r
  proof
    assume ru: "a_id r = i \<and> a_userId r = u"
    from select_get_Some [OF assms(2)] have o: "a_id other = i" "other \<in> set rows"
      by simp_all
    from assms(1) r o ru have "r = other"
      by (metis distinct_map inj_onD)
    with ru assms(3) show False by simp
  qed
  then show ?thesis
    by (simp add: select_get_None_iff)
qed

lemma select_owned_missing:
  "select_get (\<lambda>a. a_id a = i) rows = None \<Longrightarrow>
     select_get (\<lambda>a. a_id a = i \<and> a_userId a = u) rows = None"
  by (simp add: select_get_None_iff)

lemma not_owned_results:
  assumes "select_get (\<lambda>a. a_id a = accountId input \<and> a_userId a = userId) (accounts d) = None"
  shows "fst (fundAccount e userId input d) =
           (case fundAccount_input input of
              Inl err \<Rightarrow> Inl err
            | Inr parsed \<Rightarrow> Inl (TRPCError NOT_FOUND ''Account not found''))"
    and "fst (fundAccount_p2 v e userId input d) =
           (case fundAccount_input_p2 input of
              Inl err \<Rightarrow> Inl err
            | Inr parsed \<Rightarrow> Inl (TRPCError NOT_FOUND ''Account not found''))"
    and "getTransactions userId (accountId input) d =
           Inl (TRPCError NOT_FOUND ''Account not found'')"
    and "getTransactions_p2 userId (accountId input) d =
           Inl (TRPCError NOT_FOUND ''Account not found'')"
proof -
  show "fst (fundAccount e userId input d) =
           (case fundAccount_input input of
              Inl err \<Rightarrow> Inl err
            | Inr parsed \<Rightarrow> Inl (TRPCError NOT_FOUND ''Account not found''))"
    using assms
    by (auto simp: fundAccount_def fundAccount_before_await_def fundAccount_after_await_def
        fundAccount_input_def split: sum.splits if_splits)
  show "fst (fundAccount_p2 v e userId input d) =
           (case fundAccount_input_p2 input of
              Inl err \<Rightarrow> Inl err
            | Inr parsed \<Rightarrow> Inl (TRPCError NOT_FOUND ''Account not found''))"
  proof (cases "fundAccount_input_p2 input")
    case (Inl err)
    then show ?thesis
      by (simp add: fundAccount_p2_def fundAccount_before_await_p2_def)
  next
    case (Inr parsed)
    from fundAccount_input_p2_amount [OF Inr] have p: "parsed = input"
      and pos: "positive_finite (amount input)" by simp_all
    from Inr p have "\<not> (js_less_eq (amount input) (Num 0) \<or> isNaN (amount input))"
      "\<not> js_less (amount input) (to_double (1 / 100))"
      by (auto simp: fundAccount_input_p2_def split: if_splits)
    with Inr p assms show ?thesis
      by (simp add: fundAccount_p2_def fundAccount_before_await_p2_def
          fundAccount_after_await_p2_def)
  qed
  show "getTransactions userId (accountId input) d =
           Inl (TRPCError NOT_FOUND ''Account not found'')"
    using assms by (simp add: getTransactions_def)
  show "getTransactions_p2 userId (accountId input) d =
           Inl (TRPCError NOT_FOUND ''Account not found'')"
    using assms by (simp add: getTransactions_p2_def)
qed

text \<open>
  C8. For the same caller and input, \<open>fundAccount\<close> and \<open>getTransactions\<close> answer a store
  with no account of that id exactly as they answer a store where the account of that id
  belongs to another user: \<open>getTransactions\<close> with \<open>NOT_FOUND\<close>, \<open>Account not found\<close>,
  and \<open>fundAccount\<close> with the same error in both stores, which is that \<open>NOT_FOUND\<close> once
  the input has passed the schema. Both revisions.
\<close>

theorem not_found_indistinguishable:
  assumes missing: "select_get (\<lambda>a. a_id a = accountId input) (accounts d) = None"
    and key: "distinct (map a_id (accounts d'))"
    and other: "select_get (\<lambda>a. a_id a = accountId input) (accounts d') = Some other"
    and owner: "a_userId other \<noteq> userId"
  shows "fst (fundAccount e userId input d) = fst (fundAccount e' userId input d') \<and>
         fst (fundAccount_p2 v e userId input d) = fst (fundAccount_p2 v e' userId input d') \<and>
         getTransactions userId (accountId input) d =
           Inl (TRPCError NOT_FOUND ''Account not found'') \<and>
         getTransactions userId (accountId input) d' =
           Inl (TRPCError NOT_FOUND ''Account not found'') \<and>
         getTransactions_p2 userId (accountId input) d =
           Inl (TRPCError NOT_FOUND ''Account not found'') \<and>
         getTransactions_p2 userId (accountId input) d' =
           Inl (TRPCError NOT_FOUND ''Account not found'') \<and>
         (fundAccount_input input = Inr input \<longrightarrow>
            fst (fundAccount e userId input d) =
              Inl (TRPCError NOT_FOUND ''Account not found'')) \<and>
         (fundAccount_input_p2 input = Inr input \<longrightarrow>
            fst (fundAccount_p2 v e userId input d) =
              Inl (TRPCError NOT_FOUND ''Account not found''))"
proof -
  note a = not_owned_results [OF select_owned_missing [OF missing]]
  note b = not_owned_results [OF select_owned_other [OF key other owner]]
  show ?thesis
    by (simp add: a b)
qed

theorem not_found_indistinguishable_witness:
  "select_get (\<lambda>a. a_id a = accountId (deposit 100)) (accounts empty_db) = None \<and>
   distinct (map a_id (accounts foreign_db)) \<and>
   select_get (\<lambda>a. a_id a = accountId (deposit 100)) (accounts foreign_db) =
     Some (opened\<lparr>a_userId := 2\<rparr>) \<and>
   a_userId (opened\<lparr>a_userId := 2\<rparr>) \<noteq> 1 \<and>
   fst (fundAccount quiet 1 (deposit 100) empty_db) =
     Inl (TRPCError NOT_FOUND ''Account not found'') \<and>
   fst (fundAccount quiet 1 (deposit 100) foreign_db) =
     Inl (TRPCError NOT_FOUND ''Account not found'') \<and>
   fst (fundAccount_p2 any_card quiet 1 (deposit 100) empty_db) =
     fst (fundAccount_p2 any_card quiet 1 (deposit 100) foreign_db) \<and>
   getTransactions 1 1 empty_db = getTransactions 1 1 foreign_db \<and>
   getTransactions_p2 1 1 empty_db = getTransactions_p2 1 1 foreign_db"
proof -
  have h: "select_get (\<lambda>a. a_id a = accountId (deposit 100)) (accounts empty_db) = None"
    "distinct (map a_id (accounts foreign_db))"
    "select_get (\<lambda>a. a_id a = accountId (deposit 100)) (accounts foreign_db) =
      Some (opened\<lparr>a_userId := 2\<rparr>)"
    "a_userId (opened\<lparr>a_userId := 2\<rparr>) \<noteq> 1"
    by (simp_all add: select_get_def empty_db_def foreign_db_def deposit_def opened_def)
  have valid: "fundAccount_input (deposit 100) = Inr (deposit 100)"
    by (simp add: fundAccount_input_def deposit_def isNaN_def)
  have id: "accountId (deposit 100) = 1"
    by (simp add: deposit_def)
  note t = not_found_indistinguishable [OF h, where e = quiet and e' = quiet and v = any_card,
      unfolded id]
  from t valid have "fst (fundAccount quiet 1 (deposit 100) empty_db) =
     Inl (TRPCError NOT_FOUND ''Account not found'')"
    by blast
  moreover from t have "fst (fundAccount quiet 1 (deposit 100) empty_db) =
     fst (fundAccount quiet 1 (deposit 100) foreign_db)"
    by blast
  moreover from t have "fst (fundAccount_p2 any_card quiet 1 (deposit 100) empty_db) =
     fst (fundAccount_p2 any_card quiet 1 (deposit 100) foreign_db)"
    by blast
  moreover from t have "getTransactions 1 1 empty_db = getTransactions 1 1 foreign_db"
    "getTransactions_p2 1 1 empty_db = getTransactions_p2 1 1 foreign_db"
    by simp_all
  ultimately show ?thesis
    using h by simp
qed


section \<open>Interleaved fundings\<close>

text \<open>Two steps of one call with nothing in between are the handler itself.\<close>

lemma interleave_alone:
  "interleave [fund_call e userId input] [0, 0] ([Called], d) =
     (case fundAccount e userId input d of (r, d') \<Rightarrow> ([Returned r], d'))"
  "interleave [fund_call_p2 v e userId input] [0, 0] ([Called], d) =
     (case fundAccount_p2 v e userId input d of (r, d') \<Rightarrow> ([Returned r], d'))"
  by (auto simp: fund_call_def fund_call_p2_def fundAccount_def fundAccount_p2_def
      split: sum.splits prod.splits)

lemma returned_update:
  "i < length phases \<Longrightarrow>
     returned (phases[i := p]) + rank (phases ! i) div 2 = returned phases + rank p div 2"
proof (induction phases arbitrary: i)
  case Nil
  then show ?case by simp
next
  case (Cons q phases)
  show ?case
  proof (cases i)
    case 0
    then show ?thesis by (simp add: returned_def)
  next
    case (Suc j)
    with Cons.prems have "j < length phases" by simp
    from Cons.IH [OF this] Suc show ?thesis
      by (simp add: returned_def)
  qed
qed

lemma returned_all:
  "\<forall>j<length phases. rank (phases ! j) = 2 \<Longrightarrow> returned phases = length phases"
proof (induction phases)
  case Nil
  then show ?case by (simp add: returned_def)
next
  case (Cons p phases)
  from Cons.prems have "rank p = 2" by auto
  moreover from Cons.prems have "\<forall>j<length phases. rank (phases ! j) = 2" by auto
  ultimately show ?case
    using Cons.IH by (simp add: returned_def)
qed

lemma funded_row:
  assumes "select_get (\<lambda>a. a_id a = accountId input) (accounts d) = Some b"
  shows "select_get (\<lambda>a. a_id a = accountId input) (accounts (funded e input d)) =
           Some (b\<lparr>a_balance := a_balance b + amount input\<rparr>)"
    and "amounts_of (accountId input) (funded e input d) =
           amounts_of (accountId input) d @ [amount input]"
  using assms select_get_Some [OF assms]
  by (simp_all add: funded_def select_get_credit credit_def amounts_of_def select_all_def
      deposit_row_def)

lemma advance_step:
  assumes B: "\<forall>d b. select_get (\<lambda>a. a_id a = accountId input) (accounts d) = Some b \<and>
        a_userId b = userId \<longrightarrow> before_await d = Inr (Some b)"
    and A: "\<forall>a d. a_status a = ''active'' \<longrightarrow>
        (\<exists>res. after_await (Some a) d = (Inr res, funded e input d))"
    and amount: "amount input = Num v"
    and track: "on_track p"
    and row: "select_get (\<lambda>a. a_id a = accountId input) (accounts d) = Some b"
      "a_userId b = userId" "a_status b = ''active''"
    and step: "advance (before_await, after_await) p d = (p', d')"
  shows "on_track p'"
    and "rank p' = min 2 (rank p + 1)"
    and "\<exists>b'. select_get (\<lambda>a. a_id a = accountId input) (accounts d') = Some b' \<and>
           a_userId b' = userId \<and> a_status b' = ''active'' \<and>
           a_balance b' =
             foldl (+) (a_balance b) (replicate (rank p' div 2 - rank p div 2) (Num v))"
    and "amounts_of (accountId input) d' =
           amounts_of (accountId input) d @ replicate (rank p' div 2 - rank p div 2) (Num v)"
proof -
  have "on_track p' \<and> rank p' = min 2 (rank p + 1) \<and>
        (\<exists>b'. select_get (\<lambda>a. a_id a = accountId input) (accounts d') = Some b' \<and>
           a_userId b' = userId \<and> a_status b' = ''active'' \<and>
           a_balance b' =
             foldl (+) (a_balance b) (replicate (rank p' div 2 - rank p div 2) (Num v))) \<and>
        amounts_of (accountId input) d' =
           amounts_of (accountId input) d @ replicate (rank p' div 2 - rank p div 2) (Num v)"
  proof (cases p)
    case Called
    from B row have "before_await d = Inr (Some b)" by blast
    with Called step have "p' = Awaiting (Some b)" "d' = d" by simp_all
    with Called row show ?thesis
      by (simp add: on_track_def)
  next
    case (Awaiting found)
    with track obtain a where a: "found = Some a" "a_status a = ''active''"
      by (auto simp: on_track_def split: option.splits)
    from A a(2) obtain res where "after_await (Some a) d = (Inr res, funded e input d)"
      by blast
    with Awaiting a step have p': "p' = Returned (Inr res)" and d': "d' = funded e input d"
      by simp_all
    from funded_row [OF row(1), of e] row amount p' d' Awaiting show ?thesis
      by (simp add: on_track_def)
  next
    case (Returned r)
    with step have "p' = p" "d' = d" by simp_all
    with Returned track row show ?thesis
      by simp
  qed
  then show "on_track p'"
    and "rank p' = min 2 (rank p + 1)"
    and "\<exists>b'. select_get (\<lambda>a. a_id a = accountId input) (accounts d') = Some b' \<and>
           a_userId b' = userId \<and> a_status b' = ''active'' \<and>
           a_balance b' =
             foldl (+) (a_balance b) (replicate (rank p' div 2 - rank p div 2) (Num v))"
    and "amounts_of (accountId input) d' =
           amounts_of (accountId input) d @ replicate (rank p' div 2 - rank p div 2) (Num v)"
    by blast+
qed

lemma rank_le: "rank p \<le> 2"
  by (cases p) simp_all

lemma interleave_inv:
  assumes B: "\<forall>d b. select_get (\<lambda>a. a_id a = accountId input) (accounts d) = Some b \<and>
        a_userId b = userId \<longrightarrow> before_await d = Inr (Some b)"
    and A: "\<forall>e a d. e \<in> set envs \<and> a_status a = ''active'' \<longrightarrow>
        (\<exists>res. after_await e (Some a) d = (Inr res, funded e input d))"
    and amount: "amount input = Num v"
  shows "list_all on_track phases \<Longrightarrow> length phases = length envs \<Longrightarrow>
     select_get (\<lambda>a. a_id a = accountId input) (accounts d) = Some b \<Longrightarrow>
     a_userId b = userId \<Longrightarrow> a_status b = ''active'' \<Longrightarrow>
     a_balance b = added_up (replicate (returned phases) (Num v)) \<Longrightarrow>
     amounts_of (accountId input) d = replicate (returned phases) (Num v) \<Longrightarrow>
     interleave (map (\<lambda>e. (before_await, after_await e)) envs) schedule (phases, d) =
       (phases', d') \<Longrightarrow>
     list_all on_track phases' \<and> length phases' = length envs \<and>
     (\<forall>j<length envs. rank (phases' ! j) = min 2 (rank (phases ! j) + count_list schedule j)) \<and>
     (\<exists>b'. select_get (\<lambda>a. a_id a = accountId input) (accounts d') = Some b' \<and>
        a_balance b' = added_up (replicate (returned phases') (Num v))) \<and>
     amounts_of (accountId input) d' = replicate (returned phases') (Num v)"
proof (induction schedule arbitrary: phases d b)
  case Nil
  then show ?case by (simp add: rank_le min_absorb2)
next
  case (Cons i schedule)
  let ?calls = "map (\<lambda>e. (before_await, after_await e)) envs"
  show ?case
  proof (cases "i < length envs")
    case False
    with Cons.prems(8) have run: "interleave ?calls schedule (phases, d) = (phases', d')"
      by simp
    from Cons.IH [OF Cons.prems(1-7) run] False show ?thesis
      by auto
  next
    case True
    obtain p' d1 where step: "advance (before_await, after_await (envs ! i)) (phases ! i) d = (p', d1)"
      by (cases "advance (before_await, after_await (envs ! i)) (phases ! i) d")
    with True Cons.prems(8)
    have run: "interleave ?calls schedule (phases[i := p'], d1) = (phases', d')"
      by simp
    from True have e: "envs ! i \<in> set envs" by simp
    with A have A': "\<forall>a d. a_status a = ''active'' \<longrightarrow>
        (\<exists>res. after_await (envs ! i) (Some a) d = (Inr res, funded (envs ! i) input d))"
      by blast
    from True Cons.prems(1,2) have track: "on_track (phases ! i)"
      by (simp add: list_all_length)
    note s = advance_step [OF B A' amount track Cons.prems(3,4,5) step]
    from s(3) obtain b1 where b1: "select_get (\<lambda>a. a_id a = accountId input) (accounts d1) = Some b1"
      "a_userId b1 = userId" "a_status b1 = ''active''"
      "a_balance b1 = foldl (+) (a_balance b)
         (replicate (rank p' div 2 - rank (phases ! i) div 2) (Num v))"
      by blast
    from s(2) have mono: "rank (phases ! i) div 2 \<le> rank p' div 2"
      by (cases "phases ! i") simp_all
    from returned_update [of i phases p'] True Cons.prems(2) mono
    have ret: "returned (phases[i := p']) =
        returned phases + (rank p' div 2 - rank (phases ! i) div 2)"
      by simp
    have t1: "list_all on_track (phases[i := p'])"
      using Cons.prems(1) s(1) set_update_subset_insert [of phases i p']
      by (auto simp: list_all_iff)
    have t2: "length (phases[i := p']) = length envs"
      using Cons.prems(2) by simp
    have t6: "a_balance b1 = added_up (replicate (returned (phases[i := p'])) (Num v))"
      using b1(4) Cons.prems(6) ret by (simp add: added_up_def replicate_add)
    have t7: "amounts_of (accountId input) d1 = replicate (returned (phases[i := p'])) (Num v)"
      using s(4) Cons.prems(7) ret by (simp add: replicate_add)
    note ih = Cons.IH [OF t1 t2 b1(1,2,3) t6 t7 run]
    have "rank (phases' ! j) = min 2 (rank (phases ! j) + count_list (i # schedule) j)"
      if j: "j < length envs" for j
    proof (cases "j = i")
      case True
      with ih j s(2) Cons.prems(2) show ?thesis by simp
    next
      case False
      with ih j show ?thesis by simp
    qed
    with ih show ?thesis by blast
  qed
qed

lemma fund_transaction_funded:
  assumes "\<not> insert_fails e" and "\<not> update_fails e"
  shows "\<exists>res. rawDb_transaction (fund_transaction e input account) d =
           (Inr res, funded e input d)"
proof -
  from fund_transaction_runs [OF assms] obtain res d' where
    r: "fund_transaction e input account d = Inr (res, d')" by blast
  from fund_transaction_Inr(1) [OF r] have "d' = funded e input d"
    by (simp add: funded_def)
  with r show ?thesis
    by (simp add: rawDb_transaction_def)
qed

lemma fund_call_good:
  assumes "fundAccount_input input = Inr input"
  shows "\<forall>d b. select_get (\<lambda>a. a_id a = accountId input) (accounts d) = Some b \<and>
        a_userId b = userId \<longrightarrow> fundAccount_before_await userId input d = Inr (Some b)"
    and "list_all (\<lambda>e. \<not> insert_fails e \<and> \<not> update_fails e) envs \<Longrightarrow>
      \<forall>e a d. e \<in> set envs \<and> a_status a = ''active'' \<longrightarrow>
        (\<exists>res. fundAccount_after_await e input (Some a) d = (Inr res, funded e input d))"
proof -
  show "\<forall>d b. select_get (\<lambda>a. a_id a = accountId input) (accounts d) = Some b \<and>
        a_userId b = userId \<longrightarrow> fundAccount_before_await userId input d = Inr (Some b)"
    using assms by (auto simp: fundAccount_before_await_def dest: select_owned_from_id)
  show "\<forall>e a d. e \<in> set envs \<and> a_status a = ''active'' \<longrightarrow>
        (\<exists>res. fundAccount_after_await e input (Some a) d = (Inr res, funded e input d))"
    if "list_all (\<lambda>e. \<not> insert_fails e \<and> \<not> update_fails e) envs"
    using that
    by (auto simp: fundAccount_after_await_def list_all_iff intro: fund_transaction_funded)
qed

lemma fund_call_p2_good:
  assumes "fundAccount_input_p2 input = Inr input"
    and "fs_type (fundingSource input) = Card \<longrightarrow>
      fst (validateCardNumber (fs_accountNumber (fundingSource input)))"
  shows "\<forall>d b. select_get (\<lambda>a. a_id a = accountId input) (accounts d) = Some b \<and>
        a_userId b = userId \<longrightarrow> fundAccount_before_await_p2 userId input d = Inr (Some b)"
    and "list_all (\<lambda>e. \<not> insert_fails e \<and> \<not> update_fails e) envs \<Longrightarrow>
      \<forall>e a d. e \<in> set envs \<and> a_status a = ''active'' \<longrightarrow>
        (\<exists>res. fundAccount_after_await_p2 validateCardNumber e input (Some a) d =
           (Inr res, funded e input d))"
proof -
  from assms(1) have checks: "\<not> (js_less_eq (amount input) (Num 0) \<or> isNaN (amount input))"
    "\<not> js_less (amount input) (to_double (1 / 100))"
    by (auto simp: fundAccount_input_p2_def split: if_splits)
  show "\<forall>d b. select_get (\<lambda>a. a_id a = accountId input) (accounts d) = Some b \<and>
        a_userId b = userId \<longrightarrow> fundAccount_before_await_p2 userId input d = Inr (Some b)"
    using assms(1) checks
    by (auto simp: fundAccount_before_await_p2_def dest: select_owned_from_id)
  show "\<forall>e a d. e \<in> set envs \<and> a_status a = ''active'' \<longrightarrow>
        (\<exists>res. fundAccount_after_await_p2 validateCardNumber e input (Some a) d =
           (Inr res, funded e input d))"
    if ok: "list_all (\<lambda>e. \<not> insert_fails e \<and> \<not> update_fails e) envs"
  proof (intro allI impI, elim conjE)
    fix e :: env and a :: account_row and d :: db
    assume e: "e \<in> set envs" and a: "a_status a = ''active''"
    from ok e have "\<not> insert_fails e" "\<not> update_fails e"
      by (auto simp: list_all_iff)
    from fund_transaction_funded [OF this, of input a d] obtain res where
      r: "rawDb_transaction (fund_transaction e input a) d = (Inr res, funded e input d)" ..
    show "\<exists>res. fundAccount_after_await_p2 validateCardNumber e input (Some a) d =
           (Inr res, funded e input d)"
    proof (cases "fs_type (fundingSource input)")
      case Card
      with assms(2) a r show ?thesis
        by (auto simp: fundAccount_after_await_p2_def split: prod.splits)
    next
      case Bank
      with assms(1) a r show ?thesis
        by (auto simp: fundAccount_after_await_p2_def fundAccount_input_p2_def
            split: if_splits option.splits)
    qed
  qed
qed

lemma not_isl: "\<not> isl r \<longleftrightarrow> (\<exists>res. r = Inr res)"
  by (cases r) simp_all

lemma interleave_complete:
  assumes B: "\<forall>d b. select_get (\<lambda>a. a_id a = accountId input) (accounts d) = Some b \<and>
        a_userId b = userId \<longrightarrow> before_await d = Inr (Some b)"
    and A: "\<forall>e a d. e \<in> set envs \<and> a_status a = ''active'' \<longrightarrow>
        (\<exists>res. after_await e (Some a) d = (Inr res, funded e input d))"
    and amount: "amount input = Num v"
    and account: "select_get (\<lambda>a. a_id a = accountId input) (accounts d) = Some account"
      "a_userId account = userId" "a_status account = ''active''" "a_balance account = Num 0"
    and fresh: "amounts_of (accountId input) d = []"
    and complete: "\<forall>i<length envs. 2 \<le> count_list schedule i"
  shows "case interleave (map (\<lambda>e. (before_await, after_await e)) envs) schedule
                (replicate (length envs) Called, d) of
           (phases, d') \<Rightarrow>
             list_all (\<lambda>p. \<exists>res. p = Returned (Inr res)) phases \<and>
             select_balance quiet (accountId input) d' =
               Some (added_up (replicate (length envs) (Num v))) \<and>
             amounts_of (accountId input) d' = replicate (length envs) (Num v)"
proof -
  let ?start = "replicate (length envs) Called"
  obtain phases d' where run: "interleave (map (\<lambda>e. (before_await, after_await e)) envs) schedule
                (?start, d) = (phases, d')"
    by (cases "interleave (map (\<lambda>e. (before_await, after_await e)) envs) schedule (?start, d)")
  have r0: "returned ?start = 0"
    by (simp add: returned_def)
  have i1: "list_all on_track ?start"
    by (simp add: list_all_iff on_track_def)
  have i2: "length ?start = length envs" by simp
  have i6: "a_balance account = added_up (replicate (returned ?start) (Num v))"
    using account(4) r0 by (simp add: added_up_def)
  have i7: "amounts_of (accountId input) d = replicate (returned ?start) (Num v)"
    using fresh r0 by simp
  note inv = interleave_inv [OF B A amount i1 i2 account(1,2,3) i6 i7 run]
  from inv have track: "list_all on_track phases" and len: "length phases = length envs"
    by simp_all
  have ranks: "rank (phases ! j) = 2" if "j < length envs" for j
    using inv complete that by simp
  with len have ret: "returned phases = length envs"
    using returned_all [of phases] by simp
  have "\<exists>res. p = Returned (Inr res)" if "p \<in> set phases" for p
  proof -
    from that obtain j where j: "j < length phases" "p = phases ! j"
      by (auto simp: in_set_conv_nth)
    with ranks len have "rank p = 2" by simp
    moreover from track that have "on_track p" by (simp add: list_all_iff)
    ultimately show ?thesis
      by (cases p) (auto simp: on_track_def not_isl)
  qed
  then have all: "list_all (\<lambda>p. \<exists>res. p = Returned (Inr res)) phases"
    by (simp add: list_all_iff)
  from inv ret obtain b' where "select_get (\<lambda>a. a_id a = accountId input) (accounts d') = Some b'"
    "a_balance b' = added_up (replicate (length envs) (Num v))" by auto
  then have bal: "select_balance quiet (accountId input) d' =
      Some (added_up (replicate (length envs) (Num v)))"
    by (simp add: select_balance_def quiet_def)
  from inv ret have "amounts_of (accountId input) d' = replicate (length envs) (Num v)"
    by simp
  with all bal run show ?thesis by simp
qed

text \<open>
  C5. Any number \<open>K\<close> of concurrent \<open>fundAccount\<close> calls (so also 2, 10, 50 and 100) of
  the same valid amount \<open>v\<close>, by the owner against an active account with balance 0 and
  no transactions, whose writes do not fail: under every schedule that lets each call
  take its two steps, all calls succeed, the account has exactly \<open>K\<close> transaction rows,
  and the final balance is \<open>v\<close> added \<open>K\<close> times to 0, every sum rounded to a double. A
  call that read the account before another one committed loses nothing, because the
  update adds to the stored balance.
\<close>

theorem no_lost_updates:
  assumes account: "select_get (\<lambda>a. a_id a = accountId input) (accounts d) = Some account"
      "a_userId account = userId" "a_status account = ''active''" "a_balance account = Num 0"
    and fresh: "amounts_of (accountId input) d = []"
    and amount: "amount input = Num v"
    and envs: "list_all (\<lambda>e. \<not> insert_fails e \<and> \<not> update_fails e) envs"
    and complete: "\<forall>i<length envs. 2 \<le> count_list schedule i"
  shows
  "(fundAccount_input input = Inr input \<longrightarrow>
      (case interleave (map (\<lambda>e. fund_call e userId input) envs) schedule
              (replicate (length envs) Called, d) of
         (phases, d') \<Rightarrow>
           list_all (\<lambda>p. \<exists>res. p = Returned (Inr res)) phases \<and>
           select_balance quiet (accountId input) d' =
             Some (added_up (replicate (length envs) (Num v))) \<and>
           amounts_of (accountId input) d' = replicate (length envs) (Num v))) \<and>
   (fundAccount_input_p2 input = Inr input \<and>
    (fs_type (fundingSource input) = Card \<longrightarrow>
       fst (validateCardNumber (fs_accountNumber (fundingSource input)))) \<longrightarrow>
      (case interleave (map (\<lambda>e. fund_call_p2 validateCardNumber e userId input) envs) schedule
              (replicate (length envs) Called, d) of
         (phases, d') \<Rightarrow>
           list_all (\<lambda>p. \<exists>res. p = Returned (Inr res)) phases \<and>
           select_balance quiet (accountId input) d' =
             Some (added_up (replicate (length envs) (Num v))) \<and>
           amounts_of (accountId input) d' = replicate (length envs) (Num v)))"
proof (intro conjI impI)
  assume valid: "fundAccount_input input = Inr input"
  from interleave_complete [OF fund_call_good(1) [OF valid] fund_call_good(2) [OF valid envs]
      amount account fresh complete]
  show "case interleave (map (\<lambda>e. fund_call e userId input) envs) schedule
              (replicate (length envs) Called, d) of
         (phases, d') \<Rightarrow>
           list_all (\<lambda>p. \<exists>res. p = Returned (Inr res)) phases \<and>
           select_balance quiet (accountId input) d' =
             Some (added_up (replicate (length envs) (Num v))) \<and>
           amounts_of (accountId input) d' = replicate (length envs) (Num v)"
    by (simp add: fund_call_def)
next
  assume "fundAccount_input_p2 input = Inr input \<and>
    (fs_type (fundingSource input) = Card \<longrightarrow>
       fst (validateCardNumber (fs_accountNumber (fundingSource input))))"
  then have valid: "fundAccount_input_p2 input = Inr input"
    and card: "fs_type (fundingSource input) = Card \<longrightarrow>
       fst (validateCardNumber (fs_accountNumber (fundingSource input)))"
    by simp_all
  note good = fund_call_p2_good [where validateCardNumber = validateCardNumber, OF valid card]
  from interleave_complete [OF good(1) good(2) [OF envs] amount account fresh complete]
  show "case interleave (map (\<lambda>e. fund_call_p2 validateCardNumber e userId input) envs) schedule
              (replicate (length envs) Called, d) of
         (phases, d') \<Rightarrow>
           list_all (\<lambda>p. \<exists>res. p = Returned (Inr res)) phases \<and>
           select_balance quiet (accountId input) d' =
             Some (added_up (replicate (length envs) (Num v))) \<and>
           amounts_of (accountId input) d' = replicate (length envs) (Num v)"
    by (simp add: fund_call_p2_def)
qed

theorem no_lost_updates_witness:
  "select_get (\<lambda>a. a_id a = accountId (deposit 100)) (accounts opened_db) = Some opened \<and>
   amounts_of (accountId (deposit 100)) opened_db = [] \<and>
   fundAccount_input (deposit 100) = Inr (deposit 100) \<and>
   fundAccount_input_p2 (deposit 100) = Inr (deposit 100) \<and>
   2 \<le> count_list [0, 1, 1, 0 :: nat] 0 \<and> 2 \<le> count_list [0, 1, 1, 0 :: nat] 1 \<and>
   select_balance quiet 1
     (snd (interleave (map (\<lambda>e. fund_call e 1 (deposit 100)) [quiet, quiet\<lparr>now := 5\<rparr>])
        [0, 1, 1, 0] ([Called, Called], opened_db))) = Some (Num 200) \<and>
   amounts_of 1
     (snd (interleave (map (\<lambda>e. fund_call e 1 (deposit 100)) [quiet, quiet\<lparr>now := 5\<rparr>])
        [0, 1, 1, 0] ([Called, Called], opened_db))) = [Num 100, Num 100] \<and>
   select_balance quiet 1
     (snd (interleave
        (map (\<lambda>e. fund_call_p2 any_card e 1 (deposit 100)) [quiet, quiet\<lparr>now := 5\<rparr>])
        [0, 1, 1, 0] ([Called, Called], opened_db))) = Some (Num 200) \<and>
   amounts_of 1
     (snd (interleave
        (map (\<lambda>e. fund_call_p2 any_card e 1 (deposit 100)) [quiet, quiet\<lparr>now := 5\<rparr>])
        [0, 1, 1, 0] ([Called, Called], opened_db))) = [Num 100, Num 100]"
proof -
  have id: "accountId (deposit 100) = 1" and amount: "amount (deposit 100) = Num 100"
    by (simp_all add: deposit_def)
  have account: "select_get (\<lambda>a. a_id a = accountId (deposit 100)) (accounts opened_db) =
      Some opened"
    "a_userId opened = 1" "a_status opened = ''active''" "a_balance opened = Num 0"
    by (simp_all add: select_get_def opened_db_def opened_def deposit_def)
  have fresh: "amounts_of (accountId (deposit 100)) opened_db = []"
    by (simp add: amounts_of_def select_all_def opened_db_def)
  have envs: "list_all (\<lambda>e. \<not> insert_fails e \<and> \<not> update_fails e) [quiet, quiet\<lparr>now := 5\<rparr>]"
    by (simp add: quiet_def)
  have counts: "2 \<le> count_list [0, 1, 1, 0 :: nat] 0" "2 \<le> count_list [0, 1, 1, 0 :: nat] 1"
    by simp_all
  then have complete: "\<forall>i<length [quiet, quiet\<lparr>now := 5\<rparr>]. 2 \<le> count_list [0, 1, 1, 0 :: nat] i"
    by (auto simp: less_Suc_eq)
  have valid: "fundAccount_input (deposit 100) = Inr (deposit 100)"
    "fundAccount_input_p2 (deposit 100) = Inr (deposit 100)"
    by (simp_all add: fundAccount_input_def fundAccount_input_p2_def deposit_def isNaN_def
        nine_digits_sample trim_sample to_double_cent)
  have card: "fs_type (fundingSource (deposit 100)) = Card \<longrightarrow>
       fst (any_card (fs_accountNumber (fundingSource (deposit 100))))"
    by (simp add: deposit_def)
  have start: "replicate (length [quiet, quiet\<lparr>now := 5\<rparr>]) Called = [Called, Called]"
    by (simp add: numeral_2_eq_2)
  have twice: "replicate (length [quiet, quiet\<lparr>now := 5\<rparr>]) (Num 100) = [Num 100, Num 100]"
    by (simp add: numeral_2_eq_2)
  have sum: "added_up [Num 100, Num 100] = Num 200"
    by (simp add: added_up_def double_eval)
  note t = no_lost_updates [OF account fresh amount envs complete,
      where validateCardNumber = any_card, unfolded id start twice sum case_prod_beta]
  note first = t [THEN conjunct1, THEN mp, OF valid(1), THEN conjunct2]
  note second = t [THEN conjunct2, THEN mp, OF conjI [OF valid(2) card], THEN conjunct2]
  from account(1) fresh valid counts first [THEN conjunct1] first [THEN conjunct2]
    second [THEN conjunct1] second [THEN conjunct2]
  show ?thesis
    by (intro conjI)
qed

text \<open>
  The claim as stated fails for \<open>K = 10\<close>, in both revisions: ten concurrent calls of
  \<open>0.1\<close> against account 1, each taking its first step before any takes its second,
  all succeed and leave a balance of \<open>0.9999999999999999\<close>. That is neither ten times
  the amount nor the double nearest to it, which is 1.
\<close>

theorem no_lost_updates_counterexample:
  "select_balance quiet 1
     (snd (interleave (map (\<lambda>e. fund_call e 1 (deposit tenth)) (replicate 10 quiet))
        [0, 1, 2, 3, 4, 5, 6, 7, 8, 9, 0, 1, 2, 3, 4, 5, 6, 7, 8, 9]
        (replicate 10 Called, opened_db))) = Some (Num (9007199254740991 / 2 ^ 53)) \<and>
   amounts_of 1
     (snd (interleave (map (\<lambda>e. fund_call e 1 (deposit tenth)) (replicate 10 quiet))
        [0, 1, 2, 3, 4, 5, 6, 7, 8, 9, 0, 1, 2, 3, 4, 5, 6, 7, 8, 9]
        (replicate 10 Called, opened_db))) = replicate 10 (Num tenth) \<and>
   select_balance quiet 1
     (snd (interleave (map (\<lambda>e. fund_call_p2 any_card e 1 (deposit tenth)) (replicate 10 quiet))
        [0, 1, 2, 3, 4, 5, 6, 7, 8, 9, 0, 1, 2, 3, 4, 5, 6, 7, 8, 9]
        (replicate 10 Called, opened_db))) = Some (Num (9007199254740991 / 2 ^ 53)) \<and>
   amounts_of 1
     (snd (interleave (map (\<lambda>e. fund_call_p2 any_card e 1 (deposit tenth)) (replicate 10 quiet))
        [0, 1, 2, 3, 4, 5, 6, 7, 8, 9, 0, 1, 2, 3, 4, 5, 6, 7, 8, 9]
        (replicate 10 Called, opened_db))) = replicate 10 (Num tenth) \<and>
   9007199254740991 / 2 ^ 53 \<noteq> 10 * tenth \<and>
   to_double (10 * tenth) = Num 1 \<and>
   Num (9007199254740991 / 2 ^ 53) \<noteq> Num 1"
proof -
  let ?schedule = "[0, 1, 2, 3, 4, 5, 6, 7, 8, 9, 0, 1, 2, 3, 4, 5, 6, 7, 8, 9 :: nat]"
  have id: "accountId (deposit tenth) = 1" and amount: "amount (deposit tenth) = Num tenth"
    by (simp_all add: deposit_def)
  have account: "select_get (\<lambda>a. a_id a = accountId (deposit tenth)) (accounts opened_db) =
      Some opened"
    "a_userId opened = 1" "a_status opened = ''active''" "a_balance opened = Num 0"
    by (simp_all add: select_get_def opened_db_def opened_def deposit_def)
  have fresh: "amounts_of (accountId (deposit tenth)) opened_db = []"
    by (simp add: amounts_of_def select_all_def opened_db_def)
  have envs: "list_all (\<lambda>e. \<not> insert_fails e \<and> \<not> update_fails e) (replicate 10 quiet)"
    by (simp add: quiet_def list_all_iff)
  have len: "length (replicate 10 quiet) = 10"
    by simp
  have complete: "\<forall>i<length (replicate 10 quiet). 2 \<le> count_list ?schedule i"
    unfolding len
  proof (intro allI impI)
    fix i :: nat
    assume "i < 10"
    then have "i \<in> {0, 1, 2, 3, 4, 5, 6, 7, 8, 9}" by auto
    then show "2 \<le> count_list ?schedule i"
      by (elim insertE emptyE) simp_all
  qed
  have valid: "fundAccount_input (deposit tenth) = Inr (deposit tenth)"
    "fundAccount_input_p2 (deposit tenth) = Inr (deposit tenth)"
    by (simp_all add: fundAccount_input_def fundAccount_input_p2_def deposit_def isNaN_def
        nine_digits_sample trim_sample tenth_def to_double_cent)
  have card: "fs_type (fundingSource (deposit tenth)) = Card \<longrightarrow>
       fst (any_card (fs_accountNumber (fundingSource (deposit tenth))))"
    by (simp add: deposit_def)
  have ten: "added_up (replicate 10 (Num tenth)) = Num (9007199254740991 / 2 ^ 53)"
    by (simp add: added_up_def tenth_def double_eval replicate_numeral)
  note a = interleave_complete [OF fund_call_good(1) [OF valid(1)]
      fund_call_good(2) [OF valid(1) envs] amount account fresh complete,
      unfolded id len ten case_prod_beta, folded fund_call_def, THEN conjunct2]
  note good = fund_call_p2_good [where validateCardNumber = any_card, OF valid(2) card]
  note b = interleave_complete [OF good(1) good(2) [OF envs] amount account fresh complete,
      unfolded id len ten case_prod_beta, folded fund_call_p2_def, THEN conjunct2]
  have c: "9007199254740991 / 2 ^ 53 \<noteq> 10 * tenth"
    by (simp add: tenth_def)
  have d: "to_double (10 * tenth) = Num 1"
    by (simp add: tenth_def double_eval)
  have e: "Num (9007199254740991 / 2 ^ 53) \<noteq> Num 1"
    by simp
  from a [THEN conjunct1] a [THEN conjunct2] b [THEN conjunct1] b [THEN conjunct2] c d e
  show ?thesis
    by (intro conjI)
qed

end
